theory Spec2Isabelle
  imports Main
begin

section \<open>Characters and strings of the source\<close>

text \<open>
  Source strings are modelled as \<^typ>\<open>string\<close>, one \<^typ>\<open>char\<close> per code unit
  (code units below 256). The characters that the source names by escape sequences
  are written by their codes.
\<close>

abbreviation (input) LF :: char where "LF \<equiv> CHR 0x0A"
abbreviation (input) CR :: char where "CR \<equiv> CHR 0x0D"
abbreviation (input) TAB :: char where "TAB \<equiv> CHR 0x09"
abbreviation (input) SPC :: char where "SPC \<equiv> CHR 0x20"
abbreviation (input) BSL :: char where "BSL \<equiv> CHR 0x5C"
abbreviation (input) DQ :: char where "DQ \<equiv> CHR 0x22"

text \<open>\<^verbatim>\<open>String.prototype.startsWith\<close> with a literal prefix.\<close>

definition startsWith :: "string \<Rightarrow> string \<Rightarrow> bool" where
  "startsWith s p = (take (length p) s = p)"

text \<open>\<^verbatim>\<open>Array.prototype.join\<close> on an array of strings.\<close>

fun join :: "string \<Rightarrow> string list \<Rightarrow> string" where
  "join sep [] = []"
| "join sep [x] = x"
| "join sep (x # y # ys) = x @ sep @ join sep (y # ys)"

section \<open>Errors thrown by the source\<close>

text \<open>
  \<^verbatim>\<open>YamlParseError\<close> and \<^verbatim>\<open>NoRequiredParamsError\<close> are the classes of
  \<^verbatim>\<open>errors.ts\<close>, each with the message it is constructed with; \<^verbatim>\<open>TypeError\<close>
  is what \<^verbatim>\<open>new URL(...)\<close> throws on a string that is not a URL.
\<close>

datatype error = YamlParseError string | NoRequiredParamsError string | TypeError

section \<open>Asset URL resolution: \<^verbatim>\<open>LinkMetadataParser.fixImageUrl\<close>\<close>

text \<open>
  The two collaborators of \<^verbatim>\<open>fixImageUrl\<close> are parameters of the model:
  \<^item> \<open>hostnameOf\<close> stands for \<^verbatim>\<open>new URL(this.url).hostname\<close>, \<open>None\<close> when the
    constructor throws;
  \<^item> \<open>checkUrlAccessibility\<close> stands for the image-load probe, \<open>True\<close> when the
    image loads.
  The argument \<open>url\<close> is \<open>None\<close> for \<^verbatim>\<open>undefined\<close>. The source awaits the first
  probe of the protocol-relative branch before it issues the second, and issues both
  probes of the root-relative branch before it decides; the returned value depends on
  the probes' answers only, which is what the model keeps.
\<close>

definition fixImageUrl ::
  "(string \<Rightarrow> string option) \<Rightarrow> (string \<Rightarrow> bool) \<Rightarrow> string \<Rightarrow> string option \<Rightarrow> error + string"
where
  "fixImageUrl hostnameOf checkUrlAccessibility thisUrl url =
    (case url of
       None \<Rightarrow> Inr []
     | Some u \<Rightarrow>
        (case hostnameOf thisUrl of
           None \<Rightarrow> Inl TypeError
         | Some hostname \<Rightarrow>
            if startsWith u ''//'' then
              (let testUrlHttps = ''https:'' @ u;
                   testUrlHttp = ''http:'' @ u
               in if checkUrlAccessibility testUrlHttps then Inr testUrlHttps
                  else if checkUrlAccessibility testUrlHttp then Inr testUrlHttp
                  else Inr u)
            else if startsWith u ''/'' \<and> hostname \<noteq> [] then
              (let testUrlHttps = ''https://'' @ hostname @ u;
                   testUrlHttp = ''http://'' @ hostname @ u;
                   resUrlHttps = checkUrlAccessibility testUrlHttps;
                   resUrlHttp = checkUrlAccessibility testUrlHttp
               in if resUrlHttps then Inr testUrlHttps
                  else if resUrlHttp then Inr testUrlHttp
                  else Inr u)
            else Inr u))"

section \<open>The metadata record: \<^verbatim>\<open>interfaces.ts\<close>\<close>

text \<open>
  The interface declares every field but \<^verbatim>\<open>indent\<close> a string, the optional ones
  possibly \<^verbatim>\<open>undefined\<close> (\<open>None\<close>). The extractor builds records of strings. The
  block parser copies whatever values the YAML parser hands back, through an unchecked
  cast, so its records hold arbitrary values: the record is polymorphic in the type of
  its field values.
\<close>

record 'v LinkMetadata =
  url :: 'v
  title :: 'v
  description :: "'v option"
  host :: "'v option"
  favicon :: "'v option"
  image :: "'v option"
  indent :: int

section \<open>Serialization: \<^verbatim>\<open>CodeBlockGenerator.genCodeBlock\<close>\<close>

text \<open>
  The array \<^verbatim>\<open>codeBlockTexts\<close> is built push by push; a push guarded by
  \<^verbatim>\<open>if (linkMetadata.description)\<close> happens when the field is a non-empty string.
  The block is the array joined by newlines.
\<close>

definition codeBlockTexts :: "string LinkMetadata \<Rightarrow> string list" where
  "codeBlockTexts linkMetadata =
    (let codeBlockTexts = [LF # ''```cardlink''];
         codeBlockTexts = codeBlockTexts @ [''url: '' @ url linkMetadata];
         codeBlockTexts = codeBlockTexts @ [''title: '' @ [DQ] @ title linkMetadata @ [DQ]];
         codeBlockTexts =
           (case description linkMetadata of
              Some d \<Rightarrow> if d \<noteq> [] then codeBlockTexts @ [''description: '' @ [DQ] @ d @ [DQ]]
                        else codeBlockTexts
            | None \<Rightarrow> codeBlockTexts);
         codeBlockTexts =
           (case host linkMetadata of
              Some h \<Rightarrow> if h \<noteq> [] then codeBlockTexts @ [''host: '' @ h] else codeBlockTexts
            | None \<Rightarrow> codeBlockTexts);
         codeBlockTexts =
           (case favicon linkMetadata of
              Some f \<Rightarrow> if f \<noteq> [] then codeBlockTexts @ [''favicon: '' @ f] else codeBlockTexts
            | None \<Rightarrow> codeBlockTexts);
         codeBlockTexts =
           (case image linkMetadata of
              Some i \<Rightarrow> if i \<noteq> [] then codeBlockTexts @ [''image: '' @ i] else codeBlockTexts
            | None \<Rightarrow> codeBlockTexts);
         codeBlockTexts = codeBlockTexts @ [''```'' @ [LF]]
     in codeBlockTexts)"

definition genCodeBlock :: "string LinkMetadata \<Rightarrow> string" where
  "genCodeBlock linkMetadata = join [LF] (codeBlockTexts linkMetadata)"

section \<open>Parsing a block: \<^verbatim>\<open>CodeBlockProcessor.parseLinkMetadataFromYaml\<close>\<close>

text \<open>
  The values that \<^verbatim>\<open>parseYaml\<close> can hand back. \<open>JNull\<close> stands for both
  \<^verbatim>\<open>null\<close> and \<^verbatim>\<open>undefined\<close>; numbers are integers or \<^verbatim>\<open>NaN\<close>, which is all
  that their truthiness depends on; an object is its list of properties.
\<close>

datatype jsval =
    JNull
  | JBool bool
  | JNum int
  | JNaN
  | JStr string
  | JArr "jsval list"
  | JObj "(string \<times> jsval) list"

text \<open>What \<^verbatim>\<open>!v\<close> negates.\<close>

fun truthy :: "jsval \<Rightarrow> bool" where
  "truthy JNull = False"
| "truthy (JBool b) = b"
| "truthy (JNum n) = (n \<noteq> 0)"
| "truthy JNaN = False"
| "truthy (JStr s) = (s \<noteq> [])"
| "truthy (JArr _) = True"
| "truthy (JObj _) = True"

text \<open>
  Property access \<^verbatim>\<open>yaml.key\<close> on a value that is not \<^verbatim>\<open>null\<close>: \<open>None\<close> is
  \<^verbatim>\<open>undefined\<close>, the result for a missing key and for every value that is not an
  object with that property.
\<close>

fun getProp :: "jsval \<Rightarrow> string \<Rightarrow> jsval option" where
  "getProp (JObj kvs) k = map_of kvs k"
| "getProp _ k = None"

text \<open>
  The \<^verbatim>\<open>split\<close> of the source at line breaks: a carriage return followed by a
  newline is one separator, a lone newline or carriage return is one too. The result is
  never empty, so the last case of the inner \<open>case\<close> is never taken.
\<close>

fun splitLines :: "string \<Rightarrow> string list" where
  "splitLines [] = [[]]"
| "splitLines (c # cs) =
     (if c = CR \<and> (case cs of d # _ \<Rightarrow> d = LF | [] \<Rightarrow> False) then [] # splitLines (tl cs)
      else if c = LF \<or> c = CR then [] # splitLines cs
      else (case splitLines cs of l # ls \<Rightarrow> (c # l) # ls | [] \<Rightarrow> [[c]]))"

text \<open>
  The \<^verbatim>\<open>replace\<close> of a line's leading tabs, with its callback. The pattern is anchored at the
  start of the line, so the callback runs at most once per line, on the run of leading
  tabs when there is one; it sets \<^verbatim>\<open>indent\<close> when \<^verbatim>\<open>indent\<close> is still negative and
  returns as many spaces. \<open>ind\<close> is the captured variable \<^verbatim>\<open>indent\<close>, threaded through.
\<close>

definition replaceLeadingTabs :: "int \<Rightarrow> string \<Rightarrow> string \<times> int" where
  "replaceLeadingTabs ind line =
     (let tabs = takeWhile (\<lambda>c. c = TAB) line
      in if tabs = [] then (line, ind)
         else (let n = length tabs
               in (replicate n SPC @ drop n line, if ind < 0 then int n else ind)))"

text \<open>The \<^verbatim>\<open>map\<close> over the lines, in order, threading \<^verbatim>\<open>indent\<close>.\<close>

fun mapLines :: "int \<Rightarrow> string list \<Rightarrow> string list \<times> int" where
  "mapLines ind [] = ([], ind)"
| "mapLines ind (line # lines) =
     (let (line', ind') = replaceLeadingTabs ind line;
          (lines', ind'') = mapLines ind' lines
      in (line' # lines', ind''))"

definition normalizeTabs :: "string \<Rightarrow> string \<times> int" where
  "normalizeTabs source =
     (let (lines, ind) = mapLines (- 1) (splitLines source)
      in (join [LF] lines, ind))"

text \<open>
  The parser proper. \<open>parseYaml\<close> is the host's YAML parser, a parameter: \<open>None\<close>
  when it throws. The test \<^verbatim>\<open>!yaml || !yaml.url || !yaml.title\<close> is evaluated left to
  right.
\<close>

definition parseLinkMetadataFromYaml ::
  "(string \<Rightarrow> jsval option) \<Rightarrow> string \<Rightarrow> error + jsval LinkMetadata" where
  "parseLinkMetadataFromYaml parseYaml source =
     (let (source, ind) = normalizeTabs source
      in case parseYaml source of
           None \<Rightarrow> Inl (YamlParseError ''failed to parse yaml. Check debug console for more detail.'')
         | Some yaml \<Rightarrow>
             if \<not> truthy yaml then Inl (NoRequiredParamsError ''required params[url, title] are not found.'')
             else (case getProp yaml ''url'' of
                     None \<Rightarrow> Inl (NoRequiredParamsError ''required params[url, title] are not found.'')
                   | Some u \<Rightarrow>
                       if \<not> truthy u then Inl (NoRequiredParamsError ''required params[url, title] are not found.'')
                       else (case getProp yaml ''title'' of
                               None \<Rightarrow> Inl (NoRequiredParamsError ''required params[url, title] are not found.'')
                             | Some t \<Rightarrow>
                                 if \<not> truthy t then Inl (NoRequiredParamsError ''required params[url, title] are not found.'')
                                 else Inr \<lparr>url = u, title = t,
                                        description = getProp yaml ''description'',
                                        host = getProp yaml ''host'',
                                        favicon = getProp yaml ''favicon'',
                                        image = getProp yaml ''image'',
                                        indent = ind\<rparr>)))"

section \<open>Extraction: \<^verbatim>\<open>LinkMetadataParser.parse\<close>\<close>

text \<open>
  The parsed document is consulted through six queries only, so it is modelled by their
  results: the \<^verbatim>\<open>content\<close> attribute of \<^verbatim>\<open>meta[property='og:title']\<close>, the text of
  \<^verbatim>\<open>title\<close>, the \<^verbatim>\<open>content\<close> attributes of \<^verbatim>\<open>meta[property='og:description']\<close>
  and \<^verbatim>\<open>meta[name='description']\<close>, the \<^verbatim>\<open>href\<close> of \<^verbatim>\<open>link[rel='icon']\<close> and the
  \<^verbatim>\<open>content\<close> of \<^verbatim>\<open>meta[property='og:image']\<close>; \<open>None\<close> when the element or the
  attribute is missing.
\<close>

record htmlDoc =
  metaOgTitle :: "string option"
  titleText :: "string option"
  metaOgDescription :: "string option"
  metaDescription :: "string option"
  linkIconHref :: "string option"
  metaOgImage :: "string option"

text \<open>A query result that passes \<^verbatim>\<open>if (v)\<close>: present and not the empty string.\<close>

definition nonEmpty :: "string option \<Rightarrow> string option" where
  "nonEmpty v = (case v of Some s \<Rightarrow> if s \<noteq> [] then Some s else None | None \<Rightarrow> None)"

definition getTitle :: "htmlDoc \<Rightarrow> string option" where
  "getTitle doc =
     (case nonEmpty (metaOgTitle doc) of
        Some ogTitle \<Rightarrow> Some ogTitle
      | None \<Rightarrow> nonEmpty (titleText doc))"

definition getDescription :: "htmlDoc \<Rightarrow> string option" where
  "getDescription doc =
     (case nonEmpty (metaOgDescription doc) of
        Some ogDescription \<Rightarrow> Some ogDescription
      | None \<Rightarrow> nonEmpty (metaDescription doc))"

text \<open>The \<^verbatim>\<open>replace\<close> that deletes every line break (the same three separators).\<close>

fun removeNewlines :: "string \<Rightarrow> string" where
  "removeNewlines [] = []"
| "removeNewlines (c # cs) =
     (if c = CR \<and> (case cs of d # _ \<Rightarrow> d = LF | [] \<Rightarrow> False) then removeNewlines (tl cs)
      else if c = LF \<or> c = CR then removeNewlines cs
      else c # removeNewlines cs)"

text \<open>
  The two escaping \<^verbatim>\<open>replace\<close> calls: every backslash becomes two backslashes, then
  every double quote becomes a backslash and a double quote.
\<close>

definition escapeBackslashes :: "string \<Rightarrow> string" where
  "escapeBackslashes s = concat (map (\<lambda>c. if c = BSL then [BSL, BSL] else [c]) s)"

definition escapeQuotes :: "string \<Rightarrow> string" where
  "escapeQuotes s = concat (map (\<lambda>c. if c = DQ then [BSL, DQ] else [c]) s)"

text \<open>
  The white space and line terminators that \<^verbatim>\<open>trim\<close> removes and that the
  white space class of a regular expression matches, among the code units below 256.
\<close>

definition isWhiteSpace :: "char \<Rightarrow> bool" where
  "isWhiteSpace c = (c \<in> {CHR 0x09, CHR 0x0A, CHR 0x0B, CHR 0x0C, CHR 0x0D, CHR 0x20, CHR 0xA0})"

definition trim :: "string \<Rightarrow> string" where
  "trim s = rev (dropWhile isWhiteSpace (rev (dropWhile isWhiteSpace s)))"

definition normalizeText :: "string \<Rightarrow> string" where
  "normalizeText s = trim (escapeQuotes (escapeBackslashes (removeNewlines s)))"

definition getFavicon ::
  "(string \<Rightarrow> string option) \<Rightarrow> (string \<Rightarrow> bool) \<Rightarrow> string \<Rightarrow> htmlDoc \<Rightarrow> error + string option" where
  "getFavicon hostnameOf checkUrlAccessibility thisUrl doc =
     (case nonEmpty (linkIconHref doc) of
        Some f \<Rightarrow> map_sum id Some (fixImageUrl hostnameOf checkUrlAccessibility thisUrl (Some f))
      | None \<Rightarrow> Inr None)"

definition getImage ::
  "(string \<Rightarrow> string option) \<Rightarrow> (string \<Rightarrow> bool) \<Rightarrow> string \<Rightarrow> htmlDoc \<Rightarrow> error + string option" where
  "getImage hostnameOf checkUrlAccessibility thisUrl doc =
     (case nonEmpty (metaOgImage doc) of
        Some ogImage \<Rightarrow> map_sum id Some (fixImageUrl hostnameOf checkUrlAccessibility thisUrl (Some ogImage))
      | None \<Rightarrow> Inr None)"

text \<open>
  \<^verbatim>\<open>parse\<close> returns \<^verbatim>\<open>undefined\<close> (\<open>Inr None\<close>) when there is no title, and throws
  when the page URL does not parse.
\<close>

definition parse ::
  "(string \<Rightarrow> string option) \<Rightarrow> (string \<Rightarrow> bool) \<Rightarrow> string \<Rightarrow> htmlDoc
     \<Rightarrow> error + string LinkMetadata option" where
  "parse hostnameOf checkUrlAccessibility thisUrl doc =
     (case nonEmpty (map_option normalizeText (getTitle doc)) of
        None \<Rightarrow> Inr None
      | Some titleN \<Rightarrow>
          (let descriptionN = map_option normalizeText (getDescription doc)
           in case hostnameOf thisUrl of
                None \<Rightarrow> Inl TypeError
              | Some hostname \<Rightarrow>
                  (case getFavicon hostnameOf checkUrlAccessibility thisUrl doc of
                     Inl e \<Rightarrow> Inl e
                   | Inr faviconN \<Rightarrow>
                       (case getImage hostnameOf checkUrlAccessibility thisUrl doc of
                          Inl e \<Rightarrow> Inl e
                        | Inr imageN \<Rightarrow>
                            Inr (Some \<lparr>url = thisUrl, title = titleN,
                                   description = descriptionN, host = Some hostname,
                                   favicon = faviconN, image = imageN, indent = 0\<rparr>)))))"

section \<open>Offsets to editor positions: \<^verbatim>\<open>EditorExtensions.getEditorPositionFromIndex\<close>\<close>

text \<open>
  \<^verbatim>\<open>String.prototype.substr(start, length)\<close> on integer arguments: a negative start
  counts from the end, the start is clamped to the string, and the length to what is left.
\<close>

definition substr :: "string \<Rightarrow> int \<Rightarrow> int \<Rightarrow> string" where
  "substr s start len =
    (let size = int (length s);
         intStart = (if start < 0 then max (size + start) 0 else min start size);
         intLength = min (max len 0) size;
         intEnd = min (intStart + intLength) size
     in take (nat (intEnd - intStart)) (drop (nat intStart) s))"

text \<open>
  \<^verbatim>\<open>String.prototype.indexOf(c, position)\<close> for a one-character search string: the
  position is clamped to the string, and the result is \<open>-1\<close> when there is no occurrence
  at or after it.
\<close>

primrec firstIndex :: "char \<Rightarrow> string \<Rightarrow> nat option" where
  "firstIndex c [] = None"
| "firstIndex c (x # xs) = (if x = c then Some 0 else map_option Suc (firstIndex c xs))"

definition indexOf :: "string \<Rightarrow> char \<Rightarrow> int \<Rightarrow> int" where
  "indexOf s c position =
    (let start = nat (min (max position 0) (int (length s)))
     in case firstIndex c (drop start s) of
          None \<Rightarrow> - 1
        | Some k \<Rightarrow> int (start + k))"

lemma firstIndex_less: "firstIndex c xs = Some k \<Longrightarrow> k < length xs"
  by (induction xs arbitrary: k) (auto split: if_splits)

lemma indexOf_range:
  "indexOf s c position \<noteq> - 1 \<Longrightarrow>
     position \<le> indexOf s c position \<and> indexOf s c position < int (length s)"
  by (auto simp: indexOf_def Let_def split: option.splits dest!: firstIndex_less)

text \<open>
  The \<^verbatim>\<open>for\<close> loop of the source: \<open>r\<close> is the index of the newline found last,
  \<open>l\<close> counts the newlines found, and \<open>offset\<close> follows \<open>r\<close>. Each round searches from
  \<open>r + 1\<close>, so \<open>r\<close> grows and the loop ends.
\<close>

function countLines :: "string \<Rightarrow> int \<Rightarrow> int \<Rightarrow> int \<Rightarrow> int \<times> int" where
  "countLines substr0 l offset r =
    (let r' = indexOf substr0 LF (r + 1)
     in if r' \<noteq> - 1 then countLines substr0 (l + 1) r' r' else (l, offset))"
  by pat_completeness auto
termination
proof (relation "measure (\<lambda>(s, l, offset, r). nat (int (length s) - r))")
  show "wf (measure (\<lambda>(s, l, offset, r). nat (int (length s) - r)))"
    by simp
next
  fix substr0 :: string and l offset r r' :: int
  assume "r' = indexOf substr0 LF (r + 1)" and "r' \<noteq> - 1"
  then have "r + 1 \<le> r' \<and> r' < int (length substr0)"
    using indexOf_range [of substr0 LF "r + 1"] by simp
  then show "((substr0, l + 1, r', r'), (substr0, l, offset, r))
      \<in> measure (\<lambda>(s, l, offset, r). nat (int (length s) - r))"
    by simp
qed

declare countLines.simps [simp del]

record EditorPosition =
  line :: int
  ch :: int

definition getEditorPositionFromIndex :: "string \<Rightarrow> int \<Rightarrow> EditorPosition" where
  "getEditorPositionFromIndex content index =
    (let substr0 = substr content 0 index;
         (l, offset) = countLines substr0 0 (- 1) (- 1);
         offset = offset + 1;
         ch = int (length (substr content offset (index - offset)))
     in \<lparr>line = l, ch = ch\<rparr>)"

section \<open>URL classification: \<^verbatim>\<open>CheckIf.isUrl\<close> and \<^verbatim>\<open>urlRegex\<close>\<close>

text \<open>
  The character classes of the pattern: the alphanumeric class \<^verbatim>\<open>[a-zA-Z0-9]\<close>, the
  class \<^verbatim>\<open>[a-zA-Z0-9-]\<close>, and the complement of the white space class.
\<close>

definition isDigit :: "char \<Rightarrow> bool" where
  "isDigit c = (48 \<le> (of_char c :: nat) \<and> (of_char c :: nat) \<le> 57)"

definition isUpper :: "char \<Rightarrow> bool" where
  "isUpper c = (65 \<le> (of_char c :: nat) \<and> (of_char c :: nat) \<le> 90)"

definition isLower :: "char \<Rightarrow> bool" where
  "isLower c = (97 \<le> (of_char c :: nat) \<and> (of_char c :: nat) \<le> 122)"

definition isAlnum :: "char \<Rightarrow> bool" where
  "isAlnum c = (isLower c \<or> isUpper c \<or> isDigit c)"

definition isAlnumHyphen :: "char \<Rightarrow> bool" where
  "isAlnumHyphen c = (isAlnum c \<or> c = CHR ''-'')"

text \<open>
  The pattern carries the flag \<^verbatim>\<open>i\<close>: a literal character matches a character with
  the same canonical form, the upper case of a lower case letter. The classes above hold
  both cases of every letter and so are not changed by the flag.
\<close>

definition canonicalize :: "char \<Rightarrow> char" where
  "canonicalize c = (if isLower c then char_of ((of_char c :: nat) - 32) else c)"

text \<open>
  The constructs that the pattern uses: the empty pattern, the anchors \<^verbatim>\<open>^\<close> and
  \<^verbatim>\<open>$\<close>, a literal character, a character class, a class repeated at least \<open>k\<close>
  times, concatenation, alternation, the optional pattern, and the negative lookahead.
\<close>

datatype rx =
    Eps
  | Bol
  | Eol
  | Chr char
  | Cls "char \<Rightarrow> bool"
  | Many nat "char \<Rightarrow> bool"
  | Seq rx rx
  | Alt rx rx
  | Opt rx
  | NotAhead rx

text \<open>
  A backtracking matcher: the list of the remainders that a pattern can leave when it is
  matched at the start of \<open>s\<close>, in the order a greedy matcher tries them. \<open>n\<close> is the length
  of the whole input, by which \<^verbatim>\<open>^\<close> recognises the start (there is no flag \<^verbatim>\<open>m\<close>).
\<close>

fun many :: "nat \<Rightarrow> (char \<Rightarrow> bool) \<Rightarrow> string \<Rightarrow> string list" where
  "many n P [] = (if n = 0 then [[]] else [])"
| "many n P (c # cs) = (if P c then many (n - 1) P cs else []) @ (if n = 0 then [c # cs] else [])"

fun rxMatch :: "nat \<Rightarrow> rx \<Rightarrow> string \<Rightarrow> string list" where
  "rxMatch n Eps s = [s]"
| "rxMatch n Bol s = (if length s = n then [s] else [])"
| "rxMatch n Eol s = (if s = [] then [s] else [])"
| "rxMatch n (Chr c) s =
     (case s of [] \<Rightarrow> [] | x # xs \<Rightarrow> if canonicalize x = canonicalize c then [xs] else [])"
| "rxMatch n (Cls P) s = (case s of [] \<Rightarrow> [] | x # xs \<Rightarrow> if P x then [xs] else [])"
| "rxMatch n (Many k P) s = many k P s"
| "rxMatch n (Seq a b) s = concat (map (rxMatch n b) (rxMatch n a s))"
| "rxMatch n (Alt a b) s = rxMatch n a s @ rxMatch n b s"
| "rxMatch n (Opt a) s = rxMatch n a s @ [s]"
| "rxMatch n (NotAhead a) s = (if rxMatch n a s = [] then [s] else [])"

text \<open>
  \<^verbatim>\<open>RegExp.prototype.test\<close> for a pattern without the flag \<^verbatim>\<open>g\<close>: there is a start
  position from which the pattern matches.
\<close>

definition regexTest :: "rx \<Rightarrow> string \<Rightarrow> bool" where
  "regexTest r s = list_ex (\<lambda>i. rxMatch (length s) r (drop i s) \<noteq> []) [0..<Suc (length s)]"

definition str :: "string \<Rightarrow> rx" where
  "str s = foldr (\<lambda>c r. Seq (Chr c) r) s Eps"

definition seqs :: "rx list \<Rightarrow> rx" where
  "seqs rs = foldr Seq rs Eps"

text \<open>
  The pieces of \<^verbatim>\<open>urlRegex\<close>. The scheme part is \<^verbatim>\<open>http\<close>, an optional \<^verbatim>\<open>s\<close>,
  \<^verbatim>\<open>://\<close>, then either \<^verbatim>\<open>www.\<close> or, by the negative lookahead \<^verbatim>\<open>(?!www)\<close>, a
  position not followed by \<^verbatim>\<open>www\<close>. A label is an alphanumeric character, one or
  more alphanumeric characters or hyphens and an alphanumeric character, or else one or
  more alphanumeric characters. The tail is a dot and two or more characters that are
  not white space. The pattern has four alternatives: scheme part or \<^verbatim>\<open>www.\<close>, then
  either kind of label, then the tail; the whole is between \<^verbatim>\<open>^\<close> and \<^verbatim>\<open>$\<close>.
\<close>

definition schemePart :: rx where
  "schemePart = seqs [str ''http'', Opt (Chr CHR ''s''), str ''://'',
                      Alt (str ''www.'') (NotAhead (str ''www''))]"

definition hyphenLabel :: rx where
  "hyphenLabel = seqs [Cls isAlnum, Many 1 isAlnumHyphen, Cls isAlnum]"

definition simpleLabel :: rx where
  "simpleLabel = Many 1 isAlnum"

definition dotTail :: rx where
  "dotTail = seqs [Chr CHR ''.'', Many 2 (\<lambda>c. \<not> isWhiteSpace c)]"

definition urlPattern :: rx where
  "urlPattern =
     Alt (seqs [schemePart, hyphenLabel, dotTail])
    (Alt (seqs [str ''www.'', hyphenLabel, dotTail])
    (Alt (seqs [schemePart, simpleLabel, dotTail])
         (seqs [str ''www.'', simpleLabel, dotTail])))"

definition urlRegex :: rx where
  "urlRegex = seqs [Bol, urlPattern, Eol]"

definition isUrl :: "string \<Rightarrow> bool" where
  "isUrl text = regexTest urlRegex text"

section \<open>Notions used to state the properties\<close>

subsection \<open>Positions in a text\<close>

text \<open>
  Two measures of a text, used to state where an offset lies: the number of newline
  characters in it, and the number of characters after its last newline (all of them
  when it has none).
\<close>

definition linesOf :: "string \<Rightarrow> int" where
  "linesOf t = int (length (filter (\<lambda>c. c = LF) t))"

definition tailLen :: "string \<Rightarrow> int" where
  "tailLen t = int (length (takeWhile (\<lambda>c. c \<noteq> LF) (rev t)))"

subsection \<open>Tab-indented lines\<close>

text \<open>
  The number of tabs a line begins with, the line with those tabs turned into as many
  spaces, and the tab count of the first line of a list that begins with a tab
  (\<open>-1\<close> when no line does).
\<close>

definition leadingTabs :: "string \<Rightarrow> nat" where
  "leadingTabs l = length (takeWhile (\<lambda>c. c = TAB) l)"

definition tabsToSpaces :: "string \<Rightarrow> string" where
  "tabsToSpaces l = replicate (leadingTabs l) SPC @ drop (leadingTabs l) l"

definition firstTabIndent :: "string list \<Rightarrow> int" where
  "firstTabIndent ls =
     (case List.find (\<lambda>l. leadingTabs l \<noteq> 0) ls of
        None \<Rightarrow> - 1
      | Some l \<Rightarrow> int (leadingTabs l))"

subsection \<open>Required keys\<close>

text \<open>
  A key of the parsed document is falsy when it is absent or its value is
  \<^verbatim>\<open>null\<close>, \<^verbatim>\<open>false\<close>, \<open>0\<close>, \<^verbatim>\<open>NaN\<close> or the empty string. The specification
  speaks of a key that is missing or empty: absent, \<^verbatim>\<open>null\<close> or the empty string.
\<close>

definition falsyField :: "jsval \<Rightarrow> string \<Rightarrow> bool" where
  "falsyField yaml k = (case getProp yaml k of None \<Rightarrow> True | Some v \<Rightarrow> \<not> truthy v)"

definition missingOrEmpty :: "jsval \<Rightarrow> string \<Rightarrow> bool" where
  "missingOrEmpty yaml k =
     (getProp yaml k = None \<or> getProp yaml k = Some JNull \<or> getProp yaml k = Some (JStr []))"

subsection \<open>The block format as the specification words it\<close>







subsection \<open>The scenario of the specification\<close>

text \<open>
  A page whose markup has the \<^verbatim>\<open>og:title\<close> tag with content \<open>Example Title\<close>, no
  description tag, no icon link and no image tag (its \<^verbatim>\<open>title\<close> element is left
  open), and the record the specification expects for it.
\<close>

definition exampleDoc :: "string option \<Rightarrow> htmlDoc" where
  "exampleDoc tt =
     \<lparr>metaOgTitle = Some ''Example Title'', titleText = tt, metaOgDescription = None,
      metaDescription = None, linkIconHref = None, metaOgImage = None\<rparr>"

definition exampleRecord :: "string LinkMetadata" where
  "exampleRecord =
     \<lparr>url = ''https://example.com'', title = ''Example Title'', description = None,
      host = Some ''example.com'', favicon = None, image = None, indent = 0\<rparr>"

subsection \<open>Instances\<close>


definition tabbedSource :: string where
  "tabbedSource = ''url: x'' @ [LF, TAB] @ ''title: y'' @ [LF, TAB, TAB] @ ''host: z''"


subsection \<open>The URL grammar\<close>

text \<open>Equality of two texts up to the case of their letters.\<close>

definition ciEq :: "string \<Rightarrow> string \<Rightarrow> bool" where
  "ciEq a b = (map canonicalize a = map canonicalize b)"

text \<open>
  What a pattern denotes: \<open>rxLang n p w r\<close> holds when the pattern \<open>p\<close> matches the text
  \<open>w\<close> followed by the remainder \<open>r\<close>, in an input of length \<open>n\<close>. The matcher is
  proved to compute exactly this.
\<close>

fun rxLang :: "nat \<Rightarrow> rx \<Rightarrow> string \<Rightarrow> string \<Rightarrow> bool" where
  "rxLang n Eps w r = (w = [])"
| "rxLang n Bol w r = (w = [] \<and> length r = n)"
| "rxLang n Eol w r = (w = [] \<and> r = [])"
| "rxLang n (Chr c) w r = (\<exists>x. w = [x] \<and> canonicalize x = canonicalize c)"
| "rxLang n (Cls P) w r = (\<exists>x. w = [x] \<and> P x)"
| "rxLang n (Many k P) w r = (k \<le> length w \<and> (\<forall>c \<in> set w. P c))"
| "rxLang n (Seq a b) w r = (\<exists>u v. w = u @ v \<and> rxLang n a u (v @ r) \<and> rxLang n b v r)"
| "rxLang n (Alt a b) w r = (rxLang n a w r \<or> rxLang n b w r)"
| "rxLang n (Opt a) w r = (rxLang n a w r \<or> w = [])"
| "rxLang n (NotAhead a) w r = (w = [] \<and> \<not> (\<exists>u v. r = u @ v \<and> rxLang n a u v))"

text \<open>
  The grammar of a URL. A prefix is \<open>www.\<close>, or a scheme \<open>http://\<close> or \<open>https://\<close>
  followed by \<open>www.\<close>, or such a scheme when what follows it does not begin with \<open>www\<close>;
  all up to case. A label is not empty, begins and ends with an alphanumeric
  character, and holds alphanumeric characters and, in between, hyphens. The tail is a
  dot and at least two characters, none of them white space. A URL is a prefix, a label
  and a tail.
\<close>

definition startsWithWww :: "string \<Rightarrow> bool" where
  "startsWithWww t = (\<exists>u v. t = u @ v \<and> ciEq u ''www'')"

definition isSchemePrefix :: "string \<Rightarrow> string \<Rightarrow> bool" where
  "isSchemePrefix pre rest =
     (ciEq pre ''http://www.'' \<or> ciEq pre ''https://www.''
      \<or> ((ciEq pre ''http://'' \<or> ciEq pre ''https://'') \<and> \<not> startsWithWww rest))"

definition isLabel :: "string \<Rightarrow> bool" where
  "isLabel l =
     ((\<exists>a mid b. l = a # mid @ [b] \<and> isAlnum a \<and> mid \<noteq> []
            \<and> (\<forall>c \<in> set mid. isAlnumHyphen c) \<and> isAlnum b)
      \<or> (l \<noteq> [] \<and> (\<forall>c \<in> set l. isAlnum c)))"

definition isDotTail :: "string \<Rightarrow> bool" where
  "isDotTail t = (\<exists>t'. t = CHR ''.'' # t' \<and> 2 \<le> length t' \<and> (\<forall>c \<in> set t'. \<not> isWhiteSpace c))"

definition isUrlPrefix :: "string \<Rightarrow> string \<Rightarrow> bool" where
  "isUrlPrefix pre rest = (isSchemePrefix pre rest \<or> ciEq pre ''www.'')"

definition urlGrammar :: "string \<Rightarrow> bool" where
  "urlGrammar s =
     (\<exists>pre label t. s = pre @ label @ t \<and> isUrlPrefix pre (label @ t) \<and> isLabel label \<and> isDotTail t)"

text \<open>
  The grammar as the specification words it: the scheme with or without \<open>www.\<close>, or a
  bare \<open>www.\<close>, then a label and a tail, with no condition on what follows a scheme.
\<close>

definition isGlossPrefix :: "string \<Rightarrow> bool" where
  "isGlossPrefix pre =
     (ciEq pre ''http://'' \<or> ciEq pre ''https://'' \<or> ciEq pre ''http://www.''
      \<or> ciEq pre ''https://www.'' \<or> ciEq pre ''www.'')"

definition glossUrlGrammar :: "string \<Rightarrow> bool" where
  "glossUrlGrammar s =
     (\<exists>pre label t. s = pre @ label @ t \<and> isGlossPrefix pre \<and> isLabel label \<and> isDotTail t)"

section \<open>Properties of the asset URL resolver\<close>

text \<open>
  C3, as the source has it. For a protocol-relative reference \<open>u\<close> (one that starts with
  \<open>//\<close>) and a page URL that parses, the resolver returns the https-prefixed form when
  its probe succeeds, otherwise the http-prefixed form when that probe succeeds, and
  otherwise the reference \<open>u\<close> itself, unchanged: the variable \<^verbatim>\<open>image\<close> is initialised to
  \<^verbatim>\<open>url\<close> and neither branch assigns it when both probes fail.
\<close>

theorem fixImageUrl_protocol_relative:
  assumes "startsWith u ''//''" and "hostnameOf thisUrl = Some hostname"
  shows "fixImageUrl hostnameOf probe thisUrl (Some u) =
           Inr (if probe (''https:'' @ u) then ''https:'' @ u
                else if probe (''http:'' @ u) then ''http:'' @ u
                else u)"
  using assms by (simp add: fixImageUrl_def Let_def)

theorem fixImageUrl_protocol_relative_witness:
  "fixImageUrl (\<lambda>_. Some ''example.com'') (\<lambda>t. t = ''http://cdn.example.com/a.png'')
       ''https://example.com'' (Some ''//cdn.example.com/a.png'')
     = Inr ''http://cdn.example.com/a.png''
   \<and> fixImageUrl (\<lambda>_. Some ''example.com'') (\<lambda>t. True)
       ''https://example.com'' (Some ''//cdn.example.com/a.png'')
     = Inr ''https://cdn.example.com/a.png''"
  using fixImageUrl_protocol_relative
      [where hostnameOf = "\<lambda>_. Some ''example.com''" and thisUrl = "''https://example.com''"
         and hostname = "''example.com''" and u = "''//cdn.example.com/a.png''"
         and probe = "\<lambda>t. t = ''http://cdn.example.com/a.png''"]
    fixImageUrl_protocol_relative
      [where hostnameOf = "\<lambda>_. Some ''example.com''" and thisUrl = "''https://example.com''"
         and hostname = "''example.com''" and u = "''//cdn.example.com/a.png''"
         and probe = "\<lambda>t. True"]
  by (simp add: startsWith_def)

text \<open>
  C3 as the specification words it fails: with both probes failing, the reference
  \<open>//cdn.example.com/a.png\<close> comes back as it was given, not in its https-prefixed form.
\<close>

theorem fixImageUrl_protocol_relative_counterexample:
  "fixImageUrl (\<lambda>_. Some ''example.com'') (\<lambda>_. False)
       ''https://example.com'' (Some ''//cdn.example.com/a.png'')
     = Inr ''//cdn.example.com/a.png''
   \<and> fixImageUrl (\<lambda>_. Some ''example.com'') (\<lambda>_. False)
       ''https://example.com'' (Some ''//cdn.example.com/a.png'')
     \<noteq> Inr (''https:'' @ ''//cdn.example.com/a.png'')"
  by (simp add: fixImageUrl_def startsWith_def)

text \<open>
  C4. For a root-relative reference \<open>u\<close> (one that starts with \<open>/\<close> but not with \<open>//\<close>)
  and a page URL whose hostname is known and non-empty, the resolver returns
  \<open>https://host/path\<close> when that candidate's probe succeeds, else \<open>http://host/path\<close>
  when that candidate's probe succeeds, else the reference as it was given.
\<close>

theorem fixImageUrl_root_relative:
  assumes "startsWith u ''/''" and "\<not> startsWith u ''//''"
    and "hostnameOf thisUrl = Some hostname" and "hostname \<noteq> []"
  shows "fixImageUrl hostnameOf probe thisUrl (Some u) =
           Inr (if probe (''https://'' @ hostname @ u) then ''https://'' @ hostname @ u
                else if probe (''http://'' @ hostname @ u) then ''http://'' @ hostname @ u
                else u)"
  using assms by (simp add: fixImageUrl_def Let_def)

text \<open>
  The instance of the specification: hostname \<open>example.com\<close> and reference \<open>/img.png\<close>.
  When only the http origin is reachable the result is \<open>http://example.com/img.png\<close>;
  when neither is reachable it is \<open>/img.png\<close>.
\<close>

theorem fixImageUrl_root_relative_witness:
  "fixImageUrl (\<lambda>_. Some ''example.com'') (\<lambda>t. t = ''http://example.com/img.png'')
       ''https://example.com'' (Some ''/img.png'')
     = Inr ''http://example.com/img.png''
   \<and> fixImageUrl (\<lambda>_. Some ''example.com'') (\<lambda>_. False)
       ''https://example.com'' (Some ''/img.png'')
     = Inr ''/img.png''"
  using fixImageUrl_root_relative
      [where hostnameOf = "\<lambda>_. Some ''example.com''" and thisUrl = "''https://example.com''"
         and hostname = "''example.com''" and u = "''/img.png''"
         and probe = "\<lambda>t. t = ''http://example.com/img.png''"]
    fixImageUrl_root_relative
      [where hostnameOf = "\<lambda>_. Some ''example.com''" and thisUrl = "''https://example.com''"
         and hostname = "''example.com''" and u = "''/img.png''"
         and probe = "\<lambda>_. False"]
  by (simp add: startsWith_def)

section \<open>Properties of the offset to position map\<close>

lemma firstIndex_None: "firstIndex c xs = None \<longleftrightarrow> c \<notin> set xs"
  by (induction xs) auto

lemma firstIndex_Some:
  "firstIndex c xs = Some k \<Longrightarrow> k < length xs \<and> xs ! k = c \<and> c \<notin> set (take k xs)"
  by (induction xs arbitrary: k) (auto split: if_splits)

lemma firstIndex_split:
  assumes "firstIndex c xs = Some k"
  shows "xs = take k xs @ c # drop (Suc k) xs"
  using firstIndex_Some [OF assms] by (metis id_take_nth_drop)

lemma linesOf_none: "LF \<notin> set xs \<Longrightarrow> linesOf xs = 0"
  by (induction xs) (auto simp: linesOf_def)

lemma linesOf_split: "LF \<notin> set xs \<Longrightarrow> linesOf (xs @ LF # ys) = 1 + linesOf ys"
proof -
  assume "LF \<notin> set xs"
  then have "filter (\<lambda>c. c = LF) xs = []"
    by (induction xs) auto
  then show ?thesis
    by (simp add: linesOf_def)
qed

lemma tailLen_after: "LF \<in> set ys \<Longrightarrow> tailLen (xs @ LF # ys) = tailLen ys"
proof -
  assume "LF \<in> set ys"
  then have "LF \<in> set (rev ys)" by simp
  then have "takeWhile (\<lambda>c. c \<noteq> LF) (rev ys @ LF # rev xs) = takeWhile (\<lambda>c. c \<noteq> LF) (rev ys)"
    by (rule takeWhile_append1) simp
  then show ?thesis
    by (simp add: tailLen_def)
qed

lemma tailLen_last: "LF \<notin> set ys \<Longrightarrow> tailLen (xs @ LF # ys) = int (length ys)"
proof -
  assume a: "LF \<notin> set ys"
  have "takeWhile (\<lambda>c. c \<noteq> LF) (rev ys @ LF # rev xs)
        = rev ys @ takeWhile (\<lambda>c. c \<noteq> LF) (LF # rev xs)"
    by (rule takeWhile_append2) (use a in auto)
  then show ?thesis
    by (simp add: tailLen_def)
qed

lemma indexOf_eq:
  assumes "- 1 \<le> r"
  shows "indexOf s c (r + 1) =
      (case firstIndex c (drop (nat (r + 1)) s) of
         None \<Rightarrow> - 1
       | Some k \<Rightarrow> int (nat (r + 1) + k))"
proof (cases "nat (r + 1) \<le> length s")
  case True
  then have "nat (min (max (r + 1) 0) (int (length s))) = nat (r + 1)"
    using assms by auto
  then show ?thesis
    unfolding indexOf_def Let_def by (simp only:)
next
  case False
  then have "nat (min (max (r + 1) 0) (int (length s))) = length s"
    using assms by auto
  then have "indexOf s c (r + 1) = - 1"
    unfolding indexOf_def Let_def by simp
  then show ?thesis
    using False by simp
qed

lemma countLines_spec:
  "- 1 \<le> r \<Longrightarrow>
   countLines s l off r =
     (l + linesOf (drop (nat (r + 1)) s),
      if LF \<in> set (drop (nat (r + 1)) s)
      then int (length s) - 1 - tailLen (drop (nat (r + 1)) s) else off)"
proof (induction s l off r rule: countLines.induct)
  case (1 s l off r)
  let ?st = "nat (r + 1)"
  let ?t = "drop ?st s"
  note io = indexOf_eq [OF "1.prems", of s LF]
  show ?case
  proof (cases "firstIndex LF ?t")
    case None
    then have notin: "LF \<notin> set ?t" by (simp add: firstIndex_None)
    then have l0: "linesOf ?t = 0" by (rule linesOf_none)
    have "indexOf s LF (r + 1) = - 1"
      using None by (simp add: io)
    then have "countLines s l off r = (l, off)"
      by (subst countLines.simps) (simp add: Let_def)
    then show ?thesis
      using notin l0 by simp
  next
    case (Some k)
    from firstIndex_Some [OF Some]
    have k: "k < length ?t" "?t ! k = LF" "LF \<notin> set (take k ?t)" by auto
    then have st: "?st < length s" by auto
    define r' where "r' = int (?st + k)"
    have idx: "indexOf s LF (r + 1) = r'"
      using Some by (simp add: io r'_def)
    have r'ne: "r' \<noteq> - 1" "- 1 \<le> r'" by (simp_all add: r'_def)
    have t': "drop (nat (r' + 1)) s = drop (Suc k) ?t"
      by (simp add: r'_def nat_add_distrib add.commute)
    have split: "?t = take k ?t @ LF # drop (Suc k) ?t"
      using firstIndex_split [OF Some] .
    have IH: "countLines s (l + 1) r' r' =
       (l + 1 + linesOf (drop (Suc k) ?t),
        if LF \<in> set (drop (Suc k) ?t)
        then int (length s) - 1 - tailLen (drop (Suc k) ?t) else r')"
      using "1.IH" [OF idx [symmetric] r'ne] unfolding t' .
    have lines: "linesOf ?t = 1 + linesOf (drop (Suc k) ?t)"
      using linesOf_split [OF k(3), of "drop (Suc k) ?t"] split by simp
    have inT: "LF \<in> set ?t" using k by (metis nth_mem)
    have tl1: "tailLen ?t = tailLen (drop (Suc k) ?t)" if "LF \<in> set (drop (Suc k) ?t)"
      using tailLen_after [OF that, of "take k ?t"] split by simp
    have tl2: "int (length s) - 1 - tailLen ?t = r'" if a: "LF \<notin> set (drop (Suc k) ?t)"
    proof -
      have "tailLen ?t = int (length (drop (Suc k) ?t))"
        using tailLen_last [OF a, of "take k ?t"] split by simp
      then show ?thesis using st k(1) by (simp add: r'_def)
    qed
    have step: "countLines s l off r = countLines s (l + 1) r' r'"
      by (subst countLines.simps) (simp add: idx r'ne Let_def)
    show ?thesis
    proof (cases "LF \<in> set (drop (Suc k) ?t)")
      case True
      then show ?thesis
        unfolding step IH using lines inT tl1 [OF True] by simp
    next
      case False
      then show ?thesis
        unfolding step IH using lines inT tl2 [OF False] by simp
    qed
  qed
qed

lemma substr_prefix:
  "0 \<le> index \<Longrightarrow> index \<le> int (length content) \<Longrightarrow> substr content 0 index = take (nat index) content"
  by (simp add: substr_def Let_def min_def max_def)

lemma substr_length:
  assumes "0 \<le> a" and "a \<le> b" and "b \<le> int (length content)"
  shows "int (length (substr content a (b - a))) = b - a"
proof -
  have 1: "(if a < 0 then max (int (length content) + a) 0 else min a (int (length content))) = a"
    using assms by simp
  have 2: "min (max (b - a) 0) (int (length content)) = b - a"
    using assms by simp
  have 3: "min (a + (b - a)) (int (length content)) = b"
    using assms by simp
  have "substr content a (b - a) = take (nat (b - a)) (drop (nat a) content)"
    unfolding substr_def Let_def 1 2 3 ..
  moreover have "nat (b - a) \<le> length content - nat a"
    using assms by arith
  ultimately show ?thesis
    using assms by simp
qed

lemma tailLen_le: "tailLen t \<le> int (length t)"
  unfolding tailLen_def using length_takeWhile_le [of "\<lambda>c. c \<noteq> LF" "rev t"] by simp

lemma tailLen_all: "LF \<notin> set t \<Longrightarrow> tailLen t = int (length t)"
proof -
  assume "LF \<notin> set t"
  then have "\<forall>x\<in>set (rev t). x \<noteq> LF" by auto
  then have "takeWhile (\<lambda>c. c \<noteq> LF) (rev t) = rev t"
    by (rule takeWhile_eq_all_conv [THEN iffD2])
  then have "length (takeWhile (\<lambda>c. c \<noteq> LF) (rev t)) = length (rev t)"
    by (rule arg_cong)
  then show ?thesis
    unfolding tailLen_def by (simp only: length_rev)
qed

lemma getEditorPositionFromIndex_eq:
  assumes "0 \<le> index" and "index \<le> int (length content)"
  shows "getEditorPositionFromIndex content index =
           \<lparr>line = linesOf (take (nat index) content), ch = tailLen (take (nat index) content)\<rparr>"
proof -
  define s where "s = take (nat index) content"
  have len: "int (length s) = index" using assms by (simp add: s_def)
  have cl: "countLines s 0 (- 1) (- 1) =
      (linesOf s, if LF \<in> set s then int (length s) - 1 - tailLen s else - 1)"
    using countLines_spec [of "- 1" s 0 "- 1"] by simp
  define off where "off = (if LF \<in> set s then index - 1 - tailLen s else - 1) + 1"
  have off: "off = index - tailLen s"
    using tailLen_all [of s] len by (simp add: off_def)
  have "tailLen s \<le> index" "0 \<le> tailLen s"
    using tailLen_le [of s] len by (simp_all add: tailLen_def)
  then have bounds: "0 \<le> off" "off \<le> index"
    unfolding off by simp_all
  have "int (length (substr content off (index - off))) = index - off"
    using substr_length [OF bounds assms(2)] .
  then have chv: "int (length (substr content off (index - off))) = tailLen s"
    by (simp add: off)
  have "getEditorPositionFromIndex content index =
      (let (l, offset) = countLines s 0 (- 1) (- 1); offset = offset + 1;
           ch = int (length (substr content offset (index - offset)))
       in \<lparr>line = l, ch = ch\<rparr>)"
    unfolding getEditorPositionFromIndex_def substr_prefix [OF assms] s_def Let_def ..
  also have "\<dots> = \<lparr>line = linesOf s, ch = int (length (substr content off (index - off)))\<rparr>"
    unfolding cl len off_def by (simp add: Let_def)
  finally show ?thesis
    unfolding chv s_def .
qed

lemma takeWhile_rev_props:
  fixes s :: "'a list" and P :: "'a \<Rightarrow> bool"
  defines "n \<equiv> length (takeWhile P (rev s))"
  shows "n \<le> length s"
    and "\<And>j. length s - n \<le> j \<Longrightarrow> j < length s \<Longrightarrow> P (s ! j)"
    and "n < length s \<Longrightarrow> \<not> P (s ! (length s - n - 1))"
proof -
  show le: "n \<le> length s"
    unfolding n_def using length_takeWhile_le [of P "rev s"] by simp
  show "P (s ! j)" if "length s - n \<le> j" "j < length s" for j
  proof -
    have lt: "length s - 1 - j < n" using that le by arith
    then have "P (takeWhile P (rev s) ! (length s - 1 - j))"
      unfolding n_def by (metis nth_mem set_takeWhileD)
    moreover have "takeWhile P (rev s) ! (length s - 1 - j) = rev s ! (length s - 1 - j)"
      using lt unfolding n_def by (rule takeWhile_nth)
    moreover have "rev s ! (length s - 1 - j) = s ! j"
      using that by (simp add: rev_nth)
    ultimately show ?thesis by simp
  qed
  show "\<not> P (s ! (length s - n - 1))" if "n < length s"
  proof -
    have "n < length (rev s)" using that by simp
    then have "\<not> P (rev s ! n)"
      unfolding n_def by (rule nth_length_takeWhile)
    moreover have "rev s ! n = s ! (length s - n - 1)"
      using that by (simp add: rev_nth)
    ultimately show ?thesis by simp
  qed
qed

text \<open>
  C9. For every content and every index with \<open>0 \<le> index \<le> length content\<close>, the line
  returned is the number of newline characters of the content before the index. The
  column \<open>ch\<close> returned lies between \<open>0\<close> and the index, no character of the content
  from offset \<open>index - ch\<close> up to the index is a newline, and offset \<open>index - ch\<close> is
  either \<open>0\<close> or the position just after a newline: the column is the number of
  characters between the position just after the last newline before the index (or
  position \<open>0\<close>) and the index.
\<close>

theorem getEditorPositionFromIndex_position:
  assumes "0 \<le> index" and "index \<le> int (length content)"
  defines "pos \<equiv> getEditorPositionFromIndex content index"
  shows "line pos = int (length (filter (\<lambda>c. c = LF) (take (nat index) content)))
       \<and> 0 \<le> ch pos \<and> ch pos \<le> index
       \<and> (\<forall>j. index - ch pos \<le> int j \<and> int j < index \<longrightarrow> content ! j \<noteq> LF)
       \<and> (ch pos = index \<or> content ! nat (index - ch pos - 1) = LF)"
proof -
  define s where "s = take (nat index) content"
  define n where "n = length (takeWhile (\<lambda>c. c \<noteq> LF) (rev s))"
  have len: "length s = nat index" using assms by (simp add: s_def)
  have nth: "s ! j = content ! j" if "j < nat index" for j
    using that by (simp add: s_def)
  have pos: "pos = \<lparr>line = linesOf s, ch = int n\<rparr>"
    unfolding pos_def getEditorPositionFromIndex_eq [OF assms(1,2)] tailLen_def n_def s_def ..
  have c1: "line pos = int (length (filter (\<lambda>c. c = LF) (take (nat index) content)))"
    by (simp add: pos linesOf_def s_def)
  have le: "n \<le> nat index"
    unfolding n_def len [symmetric] by (rule takeWhile_rev_props(1))
  have c2: "0 \<le> ch pos \<and> ch pos \<le> index"
    using le assms(1) by (simp add: pos)
  have c3: "\<forall>j. index - ch pos \<le> int j \<and> int j < index \<longrightarrow> content ! j \<noteq> LF"
  proof (intro allI impI)
    fix j assume j: "index - ch pos \<le> int j \<and> int j < index"
    then have "length s - n \<le> j" "j < length s"
      using le by (simp_all add: pos len) arith+
    then have "s ! j \<noteq> LF"
      unfolding n_def by (rule takeWhile_rev_props(2))
    moreover have "j < nat index" using j by arith
    ultimately show "content ! j \<noteq> LF" using nth [of j] by simp
  qed
  have c4: "ch pos = index \<or> content ! nat (index - ch pos - 1) = LF"
  proof (cases "n < length s")
    case True
    then have "\<not> (s ! (length s - n - 1) \<noteq> LF)"
      unfolding n_def by (rule takeWhile_rev_props(3))
    moreover have "nat (index - ch pos - 1) = length s - n - 1"
      using True by (simp add: pos len)
    moreover have "length s - n - 1 < nat index" using True len by arith
    ultimately show ?thesis using nth by simp
  next
    case False
    then have "n = nat index" using le len by simp
    then show ?thesis using assms(1) by (simp add: pos)
  qed
  from c1 c2 c3 c4 show ?thesis by blast
qed

text \<open>
  An instance: in the text \<open>a\<close>, newline, \<open>bc\<close>, newline, \<open>d\<close>, offset 4 (just before
  the second newline) is on line 1 at column 2.
\<close>

theorem getEditorPositionFromIndex_position_witness:
  "(0::int) \<le> 4 \<and> (4::int) \<le> int (length [CHR ''a'', LF, CHR ''b'', CHR ''c'', LF, CHR ''d''])
   \<and> getEditorPositionFromIndex [CHR ''a'', LF, CHR ''b'', CHR ''c'', LF, CHR ''d''] 4
       = \<lparr>line = 1, ch = 2\<rparr>"
proof -
  define content where "content = [CHR ''a'', LF, CHR ''b'', CHR ''c'', LF, CHR ''d'']"
  define pos where "pos = getEditorPositionFromIndex content 4"
  have len: "int (length content) = 6" by (simp add: content_def)
  note t = getEditorPositionFromIndex_position [of 4 content, folded pos_def]
  have l: "line pos = 1"
    using t len by (simp add: content_def)
  have b: "0 \<le> ch pos" "ch pos \<le> 4"
    using t len by simp_all
  have nl: "\<forall>j. 4 - ch pos \<le> int j \<and> int j < 4 \<longrightarrow> content ! j \<noteq> LF"
    using t len by simp
  have st: "ch pos = 4 \<or> content ! nat (4 - ch pos - 1) = LF"
    using t len by simp
  have "\<not> (4 - ch pos \<le> int 1)"
    using nl [rule_format, of 1] by (auto simp: content_def)
  then have "ch pos < 3" by simp
  then consider "ch pos = 0" | "ch pos = 1" | "ch pos = 2"
    using b(1) by linarith
  then have c: "ch pos = 2"
  proof cases
    case 1
    then show ?thesis using st by (simp add: content_def)
  next
    case 2
    then show ?thesis using st by (simp add: content_def)
  next
    case 3
    then show ?thesis .
  qed
  have "pos = \<lparr>line = 1, ch = 2\<rparr>"
    using l c by (cases pos) simp
  then show ?thesis
    unfolding pos_def content_def by simp
qed

section \<open>Properties of the tab pre-processing\<close>

lemma replaceLeadingTabs_eq:
  "replaceLeadingTabs ind l =
     (tabsToSpaces l, if leadingTabs l \<noteq> 0 \<and> ind < 0 then int (leadingTabs l) else ind)"
  by (simp add: replaceLeadingTabs_def tabsToSpaces_def leadingTabs_def Let_def)

lemma mapLines_eq:
  "mapLines ind ls =
     (map tabsToSpaces ls,
      if ind < 0
      then (case List.find (\<lambda>l. leadingTabs l \<noteq> 0) ls of
              None \<Rightarrow> ind
            | Some l \<Rightarrow> int (leadingTabs l))
      else ind)"
proof (induction ls arbitrary: ind)
  case Nil
  then show ?case by simp
next
  case (Cons l ls)
  show ?case
    by (simp add: replaceLeadingTabs_eq Cons.IH)
qed

lemma normalizeTabs_eq:
  "normalizeTabs source =
     (join [LF] (map tabsToSpaces (splitLines source)), firstTabIndent (splitLines source))"
  by (simp add: normalizeTabs_def mapLines_eq firstTabIndent_def)






section \<open>The failure modes of parsing\<close>

text \<open>
  C2, as the source has it. When the YAML parser throws, parsing throws
  \<^verbatim>\<open>YamlParseError\<close>. When it returns a document that is falsy, or whose \<open>url\<close> or
  \<open>title\<close> is falsy (absent, \<^verbatim>\<open>null\<close>, \<^verbatim>\<open>false\<close>, \<open>0\<close>, \<^verbatim>\<open>NaN\<close> or the empty
  string), parsing throws \<^verbatim>\<open>NoRequiredParamsError\<close> with the message that names
  \<open>[url, title]\<close>. Otherwise parsing returns the record of the document's values with the
  computed \<open>indent\<close>. Nothing else is thrown.
\<close>

theorem parse_failure_modes:
  "(parseYaml (fst (normalizeTabs source)) = None \<longrightarrow>
      parseLinkMetadataFromYaml parseYaml source = Inl (YamlParseError ''failed to parse yaml. Check debug console for more detail.''))
   \<and> (\<forall>yaml. parseYaml (fst (normalizeTabs source)) = Some yaml
          \<and> (\<not> truthy yaml \<or> falsyField yaml ''url'' \<or> falsyField yaml ''title'') \<longrightarrow>
      parseLinkMetadataFromYaml parseYaml source = Inl (NoRequiredParamsError ''required params[url, title] are not found.''))
   \<and> (\<forall>yaml. parseYaml (fst (normalizeTabs source)) = Some yaml
          \<and> truthy yaml \<and> \<not> falsyField yaml ''url'' \<and> \<not> falsyField yaml ''title'' \<longrightarrow>
      (\<exists>u t. getProp yaml ''url'' = Some u \<and> getProp yaml ''title'' = Some t \<and>
         parseLinkMetadataFromYaml parseYaml source =
           Inr \<lparr>url = u, title = t,
                description = getProp yaml ''description'', host = getProp yaml ''host'',
                favicon = getProp yaml ''favicon'', image = getProp yaml ''image'',
                indent = snd (normalizeTabs source)\<rparr>))
   \<and> parseLinkMetadataFromYaml parseYaml source \<noteq> Inl TypeError"
  by (auto simp: parseLinkMetadataFromYaml_def falsyField_def Let_def
      split: prod.splits option.splits)

text \<open>One instance of each of the three outcomes.\<close>

theorem parse_failure_modes_witness:
  "parseLinkMetadataFromYaml (\<lambda>_. None) ''url: [''
     = Inl (YamlParseError ''failed to parse yaml. Check debug console for more detail.'')
   \<and> parseLinkMetadataFromYaml (\<lambda>_. Some (JObj [(''url'', JStr ''x'')])) ''url: x''
     = Inl (NoRequiredParamsError ''required params[url, title] are not found.'')
   \<and> parseLinkMetadataFromYaml (\<lambda>_. Some (JObj [(''url'', JStr ''x''), (''title'', JStr ''y'')]))
        tabbedSource
     = Inr \<lparr>url = JStr ''x'', title = JStr ''y'', description = None, host = None,
            favicon = None, image = None, indent = 1\<rparr>"
proof -
  have i: "snd (normalizeTabs tabbedSource) = 1"
    by (simp add: normalizeTabs_eq tabbedSource_def firstTabIndent_def leadingTabs_def)
  have a: "parseLinkMetadataFromYaml (\<lambda>_. None) ''url: [''
     = Inl (YamlParseError ''failed to parse yaml. Check debug console for more detail.'')"
    using parse_failure_modes [of "\<lambda>_. None" "''url: [''"] by simp
  have b: "parseLinkMetadataFromYaml (\<lambda>_. Some (JObj [(''url'', JStr ''x'')])) ''url: x''
     = Inl (NoRequiredParamsError ''required params[url, title] are not found.'')"
    using parse_failure_modes [of "\<lambda>_. Some (JObj [(''url'', JStr ''x'')])" "''url: x''"]
    by (simp add: falsyField_def)
  have c: "parseLinkMetadataFromYaml (\<lambda>_. Some (JObj [(''url'', JStr ''x''), (''title'', JStr ''y'')]))
        tabbedSource
     = Inr \<lparr>url = JStr ''x'', title = JStr ''y'', description = None, host = None,
            favicon = None, image = None, indent = 1\<rparr>"
    using parse_failure_modes
      [of "\<lambda>_. Some (JObj [(''url'', JStr ''x''), (''title'', JStr ''y'')])" tabbedSource]
    by (simp add: falsyField_def i)
  from a b c show ?thesis by simp
qed

text \<open>
  C2 as the specification words it fails: in the document \<open>url: 0\<close>, \<open>title: x\<close> both
  keys are present and neither is empty, yet parsing throws
  \<^verbatim>\<open>NoRequiredParamsError\<close> where the specification has it return a record.
\<close>

theorem parse_failure_modes_counterexample:
  "\<not> missingOrEmpty (JObj [(''url'', JNum 0), (''title'', JStr ''x'')]) ''url''
   \<and> \<not> missingOrEmpty (JObj [(''url'', JNum 0), (''title'', JStr ''x'')]) ''title''
   \<and> parseLinkMetadataFromYaml (\<lambda>_. Some (JObj [(''url'', JNum 0), (''title'', JStr ''x'')]))
        ''url: 0\<newline>title: x'' = Inl (NoRequiredParamsError ''required params[url, title] are not found.'')"
  by (simp add: missingOrEmpty_def parseLinkMetadataFromYaml_def normalizeTabs_eq)

text \<open>
  C10. When the YAML parser succeeds and yields \<^verbatim>\<open>null\<close> (or \<^verbatim>\<open>undefined\<close>), parsing
  throws \<^verbatim>\<open>NoRequiredParamsError\<close>, not \<^verbatim>\<open>YamlParseError\<close>.
\<close>

theorem parse_null_document:
  "parseYaml (fst (normalizeTabs source)) = Some JNull \<Longrightarrow>
     parseLinkMetadataFromYaml parseYaml source = Inl (NoRequiredParamsError ''required params[url, title] are not found.'')
     \<and> parseLinkMetadataFromYaml parseYaml source \<noteq> Inl (YamlParseError ''failed to parse yaml. Check debug console for more detail.'')"
  by (auto simp: parseLinkMetadataFromYaml_def Let_def split: prod.splits)

text \<open>
  Instances: the empty source, and a source of two tabs, with a parser that yields
  \<^verbatim>\<open>null\<close> on the empty and on the blank text.
\<close>

theorem parse_null_document_witness:
  "parseLinkMetadataFromYaml (\<lambda>s. if s = [] \<or> s = ''  '' then Some JNull else None) [] = Inl (NoRequiredParamsError ''required params[url, title] are not found.'')
   \<and> parseLinkMetadataFromYaml (\<lambda>s. if s = [] \<or> s = ''  '' then Some JNull else None) [TAB, TAB] = Inl (NoRequiredParamsError ''required params[url, title] are not found.'')"
  using parse_null_document [of "\<lambda>s. if s = [] \<or> s = ''  '' then Some JNull else None" "[]"]
    parse_null_document [of "\<lambda>s. if s = [] \<or> s = ''  '' then Some JNull else None" "[TAB, TAB]"]
  by (simp add: normalizeTabs_eq tabsToSpaces_def leadingTabs_def)

section \<open>The format of a serialized block\<close>

lemma join_snoc: "ls \<noteq> [] \<Longrightarrow> join sep (ls @ [l]) = join sep ls @ sep @ l"
  by (induction sep ls rule: join.induct) auto





section \<open>The scenario\<close>

lemma normalizeText_example: "normalizeText ''Example Title'' = ''Example Title''"
  by (simp add: normalizeText_def trim_def escapeQuotes_def escapeBackslashes_def isWhiteSpace_def)

text \<open>
  C5, as the source has it. For the page URL \<open>https://example.com\<close>, whose hostname is
  \<open>example.com\<close>, and the markup of the scenario, extraction yields the record with that
  url, the title \<open>Example Title\<close>, the host \<open>example.com\<close>, no description, favicon or
  image, and \<open>indent\<close> 0; its serialized block holds the url line, the title line and
  the host line between the fences.
\<close>

theorem parse_example:
  assumes "hostnameOf ''https://example.com'' = Some ''example.com''"
  shows "parse hostnameOf checkUrlAccessibility ''https://example.com'' (exampleDoc tt)
           = Inr (Some exampleRecord)
       \<and> genCodeBlock exampleRecord =
           join [LF] [LF # ''```cardlink'',
                      ''url: https://example.com'',
                      ''title: '' @ [DQ] @ ''Example Title'' @ [DQ],
                      ''host: example.com'',
                      ''```'' @ [LF]]"
  using assms
  by (simp add: parse_def exampleDoc_def exampleRecord_def getTitle_def getDescription_def
      getFavicon_def getImage_def nonEmpty_def normalizeText_example genCodeBlock_def
      codeBlockTexts_def del: join.simps)

theorem parse_example_witness:
  "parse (\<lambda>u. if u = ''https://example.com'' then Some ''example.com'' else None) (\<lambda>_. False)
      ''https://example.com'' (exampleDoc None) = Inr (Some exampleRecord)"
  using parse_example [of "\<lambda>u. if u = ''https://example.com'' then Some ''example.com'' else None"
      "\<lambda>_. False" None]
  by simp

text \<open>
  C5 as the specification words it fails: the serialized block of the scenario's record
  is not the block with the url and title lines only; it has the host line too.
\<close>

theorem parse_example_counterexample:
  "genCodeBlock exampleRecord \<noteq>
     join [LF] [LF # ''```cardlink'',
                ''url: https://example.com'',
                ''title: '' @ [DQ] @ ''Example Title'' @ [DQ],
                ''```'' @ [LF]]
   \<and> ''host: example.com'' \<in> set (codeBlockTexts exampleRecord)"
  by (simp add: genCodeBlock_def codeBlockTexts_def exampleRecord_def)

section \<open>Properties of the URL classifier\<close>

lemma mem_many:
  "r \<in> set (many k P s) \<longleftrightarrow> (\<exists>w. s = w @ r \<and> k \<le> length w \<and> (\<forall>c \<in> set w. P c))"
proof (induction s arbitrary: k)
  case Nil
  show ?case by auto
next
  case (Cons x s)
  show ?case
  proof
    assume "r \<in> set (many k P (x # s))"
    then consider (step) "P x" "r \<in> set (many (k - 1) P s)" | (stop) "k = 0" "r = x # s"
      by (auto split: if_splits)
    then show "\<exists>w. x # s = w @ r \<and> k \<le> length w \<and> (\<forall>c \<in> set w. P c)"
    proof cases
      case step
      then obtain w where "s = w @ r" "k - 1 \<le> length w" "\<forall>c \<in> set w. P c"
        using Cons.IH by blast
      then have "x # s = (x # w) @ r \<and> k \<le> length (x # w) \<and> (\<forall>c \<in> set (x # w). P c)"
        using step(1) by auto
      then show ?thesis by blast
    next
      case stop
      then have "x # s = [] @ r \<and> k \<le> length ([] :: string) \<and> (\<forall>c \<in> set ([] :: string). P c)"
        by simp
      then show ?thesis by blast
    qed
  next
    assume "\<exists>w. x # s = w @ r \<and> k \<le> length w \<and> (\<forall>c \<in> set w. P c)"
    then obtain w where w: "x # s = w @ r" "k \<le> length w" "\<forall>c \<in> set w. P c"
      by blast
    show "r \<in> set (many k P (x # s))"
    proof (cases w)
      case Nil
      then have "r = x # s" "k = 0" using w by auto
      then show ?thesis by simp
    next
      case (Cons y w')
      then have "s = w' @ r" "k - 1 \<le> length w'" "\<forall>c \<in> set w'. P c" "P x"
        using w by auto
      then have "r \<in> set (many (k - 1) P s)"
        using Cons.IH by blast
      then show ?thesis using \<open>P x\<close> by simp
    qed
  qed
qed

lemma mem_Eps [simp]: "r \<in> set (rxMatch n Eps s) \<longleftrightarrow> r = s"
  by auto

lemma mem_Chr: "r \<in> set (rxMatch n (Chr c) s) \<longleftrightarrow> (\<exists>x. s = x # r \<and> canonicalize x = canonicalize c)"
  by (cases s) auto

lemma mem_Cls: "r \<in> set (rxMatch n (Cls P) s) \<longleftrightarrow> (\<exists>x. s = x # r \<and> P x)"
  by (cases s) auto

lemma mem_Many: "r \<in> set (rxMatch n (Many k P) s) \<longleftrightarrow> (\<exists>w. s = w @ r \<and> k \<le> length w \<and> (\<forall>c \<in> set w. P c))"
  by (simp add: mem_many)

lemma mem_Seq: "r \<in> set (rxMatch n (Seq a b) s) \<longleftrightarrow> (\<exists>m. m \<in> set (rxMatch n a s) \<and> r \<in> set (rxMatch n b m))"
  by auto

lemma mem_Alt: "r \<in> set (rxMatch n (Alt a b) s) \<longleftrightarrow> r \<in> set (rxMatch n a s) \<or> r \<in> set (rxMatch n b s)"
  by auto

lemma mem_Opt: "r \<in> set (rxMatch n (Opt a) s) \<longleftrightarrow> r \<in> set (rxMatch n a s) \<or> r = s"
  by auto

lemma mem_NotAhead: "r \<in> set (rxMatch n (NotAhead a) s) \<longleftrightarrow> r = s \<and> (\<forall>m. m \<notin> set (rxMatch n a s))"
  by (cases "rxMatch n a s") auto

lemma rxMatch_rxLang:
  "r \<in> set (rxMatch n rx s) \<longleftrightarrow> (\<exists>w. s = w @ r \<and> rxLang n rx w r)"
proof (induction rx arbitrary: s r)
  case Eps
  show ?case by auto
next
  case Bol
  show ?case by auto
next
  case Eol
  show ?case by auto
next
  case (Chr c)
  show ?case unfolding mem_Chr by auto
next
  case (Cls P)
  show ?case unfolding mem_Cls by auto
next
  case (Many k P)
  show ?case unfolding mem_Many by auto
next
  case (Seq a b)
  show ?case
  proof
    assume "r \<in> set (rxMatch n (Seq a b) s)"
    then obtain m where m: "m \<in> set (rxMatch n a s)" "r \<in> set (rxMatch n b m)"
      unfolding mem_Seq by blast
    from m(1) obtain u where u: "s = u @ m" "rxLang n a u m"
      using Seq.IH(1) by blast
    from m(2) obtain v where v: "m = v @ r" "rxLang n b v r"
      using Seq.IH(2) by blast
    have "s = (u @ v) @ r \<and> rxLang n (Seq a b) (u @ v) r"
      using u v by auto
    then show "\<exists>w. s = w @ r \<and> rxLang n (Seq a b) w r" by blast
  next
    assume "\<exists>w. s = w @ r \<and> rxLang n (Seq a b) w r"
    then obtain u v where uv: "s = (u @ v) @ r" "rxLang n a u (v @ r)" "rxLang n b v r"
      by auto
    have "v @ r \<in> set (rxMatch n a s)"
      using Seq.IH(1) [of "v @ r" s] uv by auto
    moreover have "r \<in> set (rxMatch n b (v @ r))"
      using Seq.IH(2) [of r "v @ r"] uv by auto
    ultimately show "r \<in> set (rxMatch n (Seq a b) s)"
      unfolding mem_Seq by blast
  qed
next
  case (Alt a b)
  show ?case unfolding mem_Alt Alt.IH by auto
next
  case (Opt a)
  show ?case unfolding mem_Opt Opt.IH by auto
next
  case (NotAhead a)
  show ?case unfolding mem_NotAhead NotAhead.IH by auto
qed

lemma ciEq_Nil [simp]: "ciEq w [] \<longleftrightarrow> w = []"
  by (auto simp: ciEq_def)

lemma ciEq_Cons: "ciEq w (c # lit) \<longleftrightarrow> (\<exists>x v. w = x # v \<and> canonicalize x = canonicalize c \<and> ciEq v lit)"
  by (cases w) (auto simp: ciEq_def)

lemma ciEq_append_lit:
  "ciEq w (l1 @ l2) \<longleftrightarrow> (\<exists>a b. w = a @ b \<and> ciEq a l1 \<and> ciEq b l2)"
proof (induction l1 arbitrary: w)
  case Nil
  show ?case by simp
next
  case (Cons c l1)
  show ?case
  proof
    assume "ciEq w ((c # l1) @ l2)"
    then obtain x v where xv: "w = x # v" "canonicalize x = canonicalize c" "ciEq v (l1 @ l2)"
      by (auto simp: ciEq_Cons)
    then obtain a b where ab: "v = a @ b" "ciEq a l1" "ciEq b l2"
      using Cons.IH by blast
    have "w = (x # a) @ b \<and> ciEq (x # a) (c # l1) \<and> ciEq b l2"
      using xv ab by (simp add: ciEq_Cons)
    then show "\<exists>a b. w = a @ b \<and> ciEq a (c # l1) \<and> ciEq b l2" by blast
  next
    assume "\<exists>a b. w = a @ b \<and> ciEq a (c # l1) \<and> ciEq b l2"
    then obtain a b where ab: "w = a @ b" "ciEq a (c # l1)" "ciEq b l2" by blast
    then obtain x a' where xa: "a = x # a'" "canonicalize x = canonicalize c" "ciEq a' l1"
      by (auto simp: ciEq_Cons)
    have "ciEq (a' @ b) (l1 @ l2)"
      using Cons.IH xa(3) ab(3) by blast
    then show "ciEq w ((c # l1) @ l2)"
      using ab(1) xa by (simp add: ciEq_Cons)
  qed
qed

lemma ex_singleton_append:
  "(\<exists>u v. w = u @ v \<and> (\<exists>x. u = [x] \<and> P x) \<and> Q v) \<longleftrightarrow> (\<exists>x v. w = x # v \<and> P x \<and> Q v)"
proof
  assume "\<exists>u v. w = u @ v \<and> (\<exists>x. u = [x] \<and> P x) \<and> Q v"
  then show "\<exists>x v. w = x # v \<and> P x \<and> Q v" by auto
next
  assume "\<exists>x v. w = x # v \<and> P x \<and> Q v"
  then obtain x v where "w = [x] @ v \<and> (\<exists>y. [x] = [y] \<and> P y) \<and> Q v" by auto
  then show "\<exists>u v. w = u @ v \<and> (\<exists>x. u = [x] \<and> P x) \<and> Q v" by blast
qed

lemma lang_str: "rxLang n (str lit) w r \<longleftrightarrow> ciEq w lit"
proof (induction lit arbitrary: w)
  case Nil
  show ?case by (simp add: str_def)
next
  case (Cons c lit)
  have "str (c # lit) = Seq (Chr c) (str lit)"
    by (simp add: str_def)
  then have "rxLang n (str (c # lit)) w r \<longleftrightarrow>
      (\<exists>u v. w = u @ v \<and> (\<exists>x. u = [x] \<and> canonicalize x = canonicalize c) \<and> ciEq v lit)"
    using Cons.IH by simp
  also have "\<dots> \<longleftrightarrow> (\<exists>x v. w = x # v \<and> canonicalize x = canonicalize c \<and> ciEq v lit)"
    by (rule ex_singleton_append)
  finally show ?case
    by (simp add: ciEq_Cons)
qed

lemma lang_seqs3:
  "rxLang n (seqs [a, b, c]) w r \<longleftrightarrow>
     (\<exists>p l t. w = p @ l @ t \<and> rxLang n a p (l @ t @ r) \<and> rxLang n b l (t @ r) \<and> rxLang n c t r)"
proof
  assume "rxLang n (seqs [a, b, c]) w r"
  then obtain p v where pv: "w = p @ v" "rxLang n a p (v @ r)" "rxLang n (Seq b (Seq c Eps)) v r"
    by (auto simp: seqs_def)
  from pv(3) obtain l t where lt: "v = l @ t" "rxLang n b l (t @ r)" "rxLang n c t r"
    by auto
  have "w = p @ l @ t \<and> rxLang n a p (l @ t @ r) \<and> rxLang n b l (t @ r) \<and> rxLang n c t r"
    using pv lt by simp
  then show "\<exists>p l t. w = p @ l @ t \<and> rxLang n a p (l @ t @ r) \<and> rxLang n b l (t @ r) \<and> rxLang n c t r"
    by blast
next
  assume "\<exists>p l t. w = p @ l @ t \<and> rxLang n a p (l @ t @ r) \<and> rxLang n b l (t @ r) \<and> rxLang n c t r"
  then obtain p l t where plt: "w = p @ l @ t" "rxLang n a p (l @ t @ r)" "rxLang n b l (t @ r)" "rxLang n c t r"
    by blast
  have "rxLang n (Seq c Eps) t r"
    using plt(4) by simp
  then have "rxLang n (Seq b (Seq c Eps)) (l @ t) r"
    using plt(3) by (simp del: rxLang.simps(1) add: rxLang.simps(7) [of n b]) blast
  then show "rxLang n (seqs [a, b, c]) w r"
    using plt(1,2) by (simp add: seqs_def del: rxLang.simps(1)) (metis append_assoc)
qed

lemma ciEq4:
  "ciEq w (l1 @ l2 @ l3 @ l4) \<longleftrightarrow>
     (\<exists>a b c d. w = a @ b @ c @ d \<and> ciEq a l1 \<and> ciEq b l2 \<and> ciEq c l3 \<and> ciEq d l4)"
proof -
  have "ciEq w (l1 @ l2 @ l3 @ l4) \<longleftrightarrow> (\<exists>a x. w = a @ x \<and> ciEq a l1 \<and> ciEq x (l2 @ l3 @ l4))"
    by (rule ciEq_append_lit)
  also have "\<dots> \<longleftrightarrow> (\<exists>a x. w = a @ x \<and> ciEq a l1 \<and> (\<exists>b y. x = b @ y \<and> ciEq b l2 \<and> ciEq y (l3 @ l4)))"
    by (simp only: ciEq_append_lit [of _ l2 "l3 @ l4"])
  also have "\<dots> \<longleftrightarrow> (\<exists>a x. w = a @ x \<and> ciEq a l1 \<and>
      (\<exists>b y. x = b @ y \<and> ciEq b l2 \<and> (\<exists>c d. y = c @ d \<and> ciEq c l3 \<and> ciEq d l4)))"
    by (simp only: ciEq_append_lit [of _ l3 l4])
  also have "\<dots> \<longleftrightarrow> (\<exists>a b c d. w = a @ b @ c @ d \<and> ciEq a l1 \<and> ciEq b l2 \<and> ciEq c l3 \<and> ciEq d l4)"
    by blast
  finally show ?thesis .
qed

lemma lang_seqs4:
  "rxLang n (seqs [a, b, c, d]) w r \<longleftrightarrow>
     (\<exists>p q l t. w = p @ q @ l @ t \<and> rxLang n a p (q @ l @ t @ r) \<and> rxLang n b q (l @ t @ r)
         \<and> rxLang n c l (t @ r) \<and> rxLang n d t r)"
proof -
  have s: "seqs [a, b, c, d] = Seq a (seqs [b, c, d])"
    by (simp add: seqs_def)
  have "rxLang n (seqs [a, b, c, d]) w r \<longleftrightarrow>
      (\<exists>p v. w = p @ v \<and> rxLang n a p (v @ r) \<and>
         (\<exists>q l t. v = q @ l @ t \<and> rxLang n b q (l @ t @ r) \<and> rxLang n c l (t @ r) \<and> rxLang n d t r))"
    unfolding s rxLang.simps(7) lang_seqs3 ..
  also have "\<dots> \<longleftrightarrow> (\<exists>p q l t. w = p @ q @ l @ t \<and> rxLang n a p (q @ l @ t @ r) \<and> rxLang n b q (l @ t @ r)
         \<and> rxLang n c l (t @ r) \<and> rxLang n d t r)"
  proof
    assume "\<exists>p v. w = p @ v \<and> rxLang n a p (v @ r) \<and>
         (\<exists>q l t. v = q @ l @ t \<and> rxLang n b q (l @ t @ r) \<and> rxLang n c l (t @ r) \<and> rxLang n d t r)"
    then obtain p v q l t where "w = p @ v" "rxLang n a p (v @ r)" "v = q @ l @ t"
      "rxLang n b q (l @ t @ r)" "rxLang n c l (t @ r)" "rxLang n d t r" by blast
    then have "w = p @ q @ l @ t \<and> rxLang n a p (q @ l @ t @ r) \<and> rxLang n b q (l @ t @ r)
         \<and> rxLang n c l (t @ r) \<and> rxLang n d t r" by simp
    then show "\<exists>p q l t. w = p @ q @ l @ t \<and> rxLang n a p (q @ l @ t @ r) \<and> rxLang n b q (l @ t @ r)
         \<and> rxLang n c l (t @ r) \<and> rxLang n d t r" by blast
  next
    assume "\<exists>p q l t. w = p @ q @ l @ t \<and> rxLang n a p (q @ l @ t @ r) \<and> rxLang n b q (l @ t @ r)
         \<and> rxLang n c l (t @ r) \<and> rxLang n d t r"
    then obtain p q l t where "w = p @ q @ l @ t" "rxLang n a p (q @ l @ t @ r)" "rxLang n b q (l @ t @ r)"
         "rxLang n c l (t @ r)" "rxLang n d t r" by blast
    then have "w = p @ (q @ l @ t) \<and> rxLang n a p ((q @ l @ t) @ r) \<and>
         (\<exists>q' l' t'. q @ l @ t = q' @ l' @ t' \<and> rxLang n b q' (l' @ t' @ r) \<and> rxLang n c l' (t' @ r) \<and> rxLang n d t' r)"
      by auto
    then show "\<exists>p v. w = p @ v \<and> rxLang n a p (v @ r) \<and>
         (\<exists>q l t. v = q @ l @ t \<and> rxLang n b q (l @ t @ r) \<and> rxLang n c l (t @ r) \<and> rxLang n d t r)"
      by blast
  qed
  finally show ?thesis .
qed

lemma lang_optS: "rxLang n (Opt (Chr CHR ''s'')) w r \<longleftrightarrow> ciEq w ''s'' \<or> ciEq w []"
  by (auto simp: ciEq_Cons)

lemma lang_wwwAlt:
  "rxLang n (Alt (str ''www.'') (NotAhead (str ''www''))) w r \<longleftrightarrow>
     ciEq w ''www.'' \<or> (ciEq w [] \<and> \<not> startsWithWww r)"
  by (simp add: lang_str startsWithWww_def)

lemma schemePart_raw:
  "rxLang n schemePart p r \<longleftrightarrow>
      (\<exists>a b c d. p = a @ b @ c @ d \<and> ciEq a ''http'' \<and> (ciEq b ''s'' \<or> ciEq b [])
         \<and> ciEq c ''://'' \<and> (ciEq d ''www.'' \<or> (ciEq d [] \<and> \<not> startsWithWww r)))"
  unfolding schemePart_def lang_seqs4 lang_str lang_optS lang_wwwAlt ..

lemma ex4_distrib:
  "(\<exists>a b c d. E a b c d \<and> A a \<and> (B1 b \<or> B2 b) \<and> C c \<and> (D1 d \<or> (D2 d \<and> Q)))
    \<longleftrightarrow> (\<exists>a b c d. E a b c d \<and> A a \<and> B1 b \<and> C c \<and> D1 d)
       \<or> (\<exists>a b c d. E a b c d \<and> A a \<and> B2 b \<and> C c \<and> D1 d)
       \<or> (((\<exists>a b c d. E a b c d \<and> A a \<and> B1 b \<and> C c \<and> D2 d)
           \<or> (\<exists>a b c d. E a b c d \<and> A a \<and> B2 b \<and> C c \<and> D2 d)) \<and> Q)"
  by blast

lemma lits:
  "''http'' @ ''s'' @ ''://'' @ ''www.'' = ''https://www.''"
  "''http'' @ [] @ ''://'' @ ''www.'' = ''http://www.''"
  "''http'' @ ''s'' @ ''://'' @ [] = ''https://''"
  "''http'' @ [] @ ''://'' @ [] = ''http://''"
  by simp_all

lemma lang_schemePart: "rxLang n schemePart p r \<longleftrightarrow> isSchemePrefix p r"
  unfolding schemePart_raw ex4_distrib ciEq4 [symmetric] lits isSchemePrefix_def
  by blast

lemma of_char_canonicalize:
  "(of_char (canonicalize x) :: nat) = (if isLower x then of_char x - 32 else of_char x)"
  by (auto simp add: canonicalize_def isLower_def)

lemma canonicalize_dot: "canonicalize x = CHR ''.'' \<longleftrightarrow> x = CHR ''.''"
proof
  assume a: "canonicalize x = CHR ''.''"
  then have "(of_char (canonicalize x) :: nat) = 46" by simp
  then have "\<not> isLower x" "(of_char x :: nat) = 46"
    unfolding of_char_canonicalize by (auto simp: isLower_def split: if_splits)
  then show "x = CHR ''.''"
    using a by (simp add: canonicalize_def)
next
  assume "x = CHR ''.''"
  then show "canonicalize x = CHR ''.''"
    by (simp add: canonicalize_def isLower_def)
qed

lemma lang_seqs2:
  "rxLang n (seqs [a, b]) w r \<longleftrightarrow> (\<exists>p t. w = p @ t \<and> rxLang n a p (t @ r) \<and> rxLang n b t r)"
  by (simp add: seqs_def)

lemma lang_dotTail: "rxLang n dotTail t r \<longleftrightarrow> isDotTail t"
proof -
  have "rxLang n dotTail t r \<longleftrightarrow>
      (\<exists>p t'. t = p @ t' \<and> (\<exists>x. p = [x] \<and> x = CHR ''.'') \<and> (2 \<le> length t' \<and> (\<forall>c \<in> set t'. \<not> isWhiteSpace c)))"
    unfolding dotTail_def lang_seqs2 rxLang.simps
    by (simp only: canonicalize_dot [of "CHR ''.''", simplified] canonicalize_dot)
  also have "\<dots> \<longleftrightarrow> (\<exists>x t'. t = x # t' \<and> x = CHR ''.'' \<and> (2 \<le> length t' \<and> (\<forall>c \<in> set t'. \<not> isWhiteSpace c)))"
    by (rule ex_singleton_append)
  also have "\<dots> \<longleftrightarrow> isDotTail t"
    unfolding isDotTail_def by blast
  finally show ?thesis .
qed

lemma lang_simpleLabel: "rxLang n simpleLabel l r \<longleftrightarrow> l \<noteq> [] \<and> (\<forall>c \<in> set l. isAlnum c)"
  by (cases l) (auto simp: simpleLabel_def)

lemma lang_hyphenLabel:
  "rxLang n hyphenLabel l r \<longleftrightarrow>
     (\<exists>a mid b. l = a # mid @ [b] \<and> isAlnum a \<and> mid \<noteq> []
            \<and> (\<forall>c \<in> set mid. isAlnumHyphen c) \<and> isAlnum b)"
proof
  assume "rxLang n hyphenLabel l r"
  then obtain p m t where "l = p @ m @ t" "\<exists>x. p = [x] \<and> isAlnum x"
    "1 \<le> length m \<and> (\<forall>c \<in> set m. isAlnumHyphen c)" "\<exists>y. t = [y] \<and> isAlnum y"
    unfolding hyphenLabel_def lang_seqs3 rxLang.simps by blast
  moreover from this have "m \<noteq> []" by auto
  ultimately obtain a b where "l = a # m @ [b] \<and> isAlnum a \<and> m \<noteq> [] \<and> (\<forall>c \<in> set m. isAlnumHyphen c) \<and> isAlnum b"
    by auto
  then show "\<exists>a mid b. l = a # mid @ [b] \<and> isAlnum a \<and> mid \<noteq> []
            \<and> (\<forall>c \<in> set mid. isAlnumHyphen c) \<and> isAlnum b" by blast
next
  assume "\<exists>a mid b. l = a # mid @ [b] \<and> isAlnum a \<and> mid \<noteq> []
            \<and> (\<forall>c \<in> set mid. isAlnumHyphen c) \<and> isAlnum b"
  then obtain a mid b where "l = a # mid @ [b]" "isAlnum a" "mid \<noteq> []"
            "\<forall>c \<in> set mid. isAlnumHyphen c" "isAlnum b" by blast
  then have "l = [a] @ mid @ [b] \<and> (\<exists>x. [a] = [x] \<and> isAlnum x) \<and>
    (1 \<le> length mid \<and> (\<forall>c \<in> set mid. isAlnumHyphen c)) \<and> (\<exists>y. [b] = [y] \<and> isAlnum y)"
    by (cases mid) auto
  then show "rxLang n hyphenLabel l r"
    unfolding hyphenLabel_def lang_seqs3 rxLang.simps by blast
qed

lemma lang_label: "rxLang n hyphenLabel l r \<or> rxLang n simpleLabel l r \<longleftrightarrow> isLabel l"
  unfolding lang_hyphenLabel lang_simpleLabel isLabel_def ..

lemma lang_branch:
  "rxLang n (seqs [P, L, dotTail]) s [] \<longleftrightarrow>
     (\<exists>p l t. s = p @ l @ t \<and> rxLang n P p (l @ t) \<and> rxLang n L l t \<and> isDotTail t)"
  unfolding lang_seqs3 lang_dotTail append_Nil2 ..

lemma ex3_distrib:
  "(\<exists>p l t. E p l t \<and> A1 p l t \<and> B1 l t \<and> T t) \<or> (\<exists>p l t. E p l t \<and> A2 p l t \<and> B1 l t \<and> T t)
     \<or> (\<exists>p l t. E p l t \<and> A1 p l t \<and> B2 l t \<and> T t) \<or> (\<exists>p l t. E p l t \<and> A2 p l t \<and> B2 l t \<and> T t)
   \<longleftrightarrow> (\<exists>p l t. E p l t \<and> (A1 p l t \<or> A2 p l t) \<and> (B1 l t \<or> B2 l t) \<and> T t)"
  by blast

lemma lang_urlPattern_raw:
  "rxLang n urlPattern s [] \<longleftrightarrow>
     (\<exists>p l t. s = p @ l @ t \<and> (rxLang n schemePart p (l @ t) \<or> rxLang n (str ''www.'') p (l @ t))
        \<and> (rxLang n hyphenLabel l t \<or> rxLang n simpleLabel l t) \<and> isDotTail t)"
  unfolding urlPattern_def rxLang.simps(8) lang_branch
  by (rule ex3_distrib [where E = "\<lambda>p l t. s = p @ l @ t" and ?A1.0 = "\<lambda>p l t. rxLang n schemePart p (l @ t)"
        and ?A2.0 = "\<lambda>p l t. rxLang n (str ''www.'') p (l @ t)"
        and ?B1.0 = "\<lambda>l t. rxLang n hyphenLabel l t" and ?B2.0 = "\<lambda>l t. rxLang n simpleLabel l t"
        and T = isDotTail, simplified disj_assoc])

lemma lang_urlPattern: "rxLang n urlPattern s [] \<longleftrightarrow> urlGrammar s"
  unfolding lang_urlPattern_raw lang_label lang_schemePart lang_str urlGrammar_def isUrlPrefix_def ..

lemma lang_urlRegex:
  "rxLang n urlRegex w m \<longleftrightarrow> m = [] \<and> length w = n \<and> rxLang n urlPattern w []"
proof
  assume "rxLang n urlRegex w m"
  then obtain p l t where "w = p @ l @ t" "p = [] \<and> length (l @ t @ m) = n"
    "rxLang n urlPattern l (t @ m)" "t = [] \<and> m = []"
    unfolding urlRegex_def lang_seqs3 rxLang.simps by blast
  then show "m = [] \<and> length w = n \<and> rxLang n urlPattern w []"
    by simp
next
  assume a: "m = [] \<and> length w = n \<and> rxLang n urlPattern w []"
  then have "w = [] @ w @ [] \<and> ([] = ([] :: string) \<and> length (w @ [] @ m) = n)
      \<and> rxLang n urlPattern w ([] @ m) \<and> ([] = ([] :: string) \<and> m = [])"
    by simp
  then show "rxLang n urlRegex w m"
    unfolding urlRegex_def lang_seqs3 rxLang.simps by blast
qed

lemma isUrl_lang: "isUrl s \<longleftrightarrow> rxLang (length s) urlPattern s []"
proof
  assume "isUrl s"
  then have "\<exists>i \<in> set [0..<Suc (length s)]. rxMatch (length s) urlRegex (drop i s) \<noteq> []"
    unfolding isUrl_def regexTest_def list_ex_iff .
  then obtain i where "i \<in> set [0..<Suc (length s)]" and i2: "rxMatch (length s) urlRegex (drop i s) \<noteq> []"
    by blast
  then have i1: "i \<le> length s" by auto
  note i = i1 i2
  then obtain m where "m \<in> set (rxMatch (length s) urlRegex (drop i s))"
    by (cases "rxMatch (length s) urlRegex (drop i s)") auto
  then obtain w where w: "drop i s = w @ m" "rxLang (length s) urlRegex w m"
    unfolding rxMatch_rxLang by blast
  then have m: "m = []" "length w = length s" "rxLang (length s) urlPattern w []"
    unfolding lang_urlRegex by auto
  then have "length (drop i s) = length s"
    using w(1) by simp
  then have "i = 0" using i(1) by simp
  then show "rxLang (length s) urlPattern s []"
    using w(1) m by simp
next
  assume "rxLang (length s) urlPattern s []"
  then have "rxLang (length s) urlRegex s []"
    unfolding lang_urlRegex by simp
  then have "[] \<in> set (rxMatch (length s) urlRegex (drop 0 s))"
    unfolding rxMatch_rxLang by simp
  then have "rxMatch (length s) urlRegex (drop 0 s) \<noteq> []"
    by auto
  then show "isUrl s"
    unfolding isUrl_def regexTest_def list_ex_iff
    by (intro bexI [of _ 0]) simp_all
qed

text \<open>The classifier accepts exactly the texts of the grammar.\<close>

lemma isUrl_iff_urlGrammar: "isUrl s \<longleftrightarrow> urlGrammar s"
  unfolding isUrl_lang lang_urlPattern ..

lemma canon_neq:
  "canonicalize CHR ''w'' \<noteq> canonicalize CHR ''.''"
  "canonicalize CHR ''h'' \<noteq> canonicalize CHR ''w''"
  "canonicalize CHR ''w'' \<noteq> canonicalize CHR ''t''"
  "canonicalize CHR ''h'' \<noteq> canonicalize CHR ''t''"
  by (simp_all add: canonicalize_def isLower_def char_of_eq_iff)

lemma urlGrammar_head:
  assumes "urlGrammar s"
  shows "\<exists>w r. s = w @ r \<and> (ciEq w ''www.'' \<or> ciEq w ''http'')"
proof -
  from assms obtain pre label t where s: "s = pre @ label @ t" and p: "isUrlPrefix pre (label @ t)"
    unfolding urlGrammar_def by blast
  have lit: "''http://www.'' = ''http'' @ ''://www.''" "''https://www.'' = ''http'' @ ''s://www.''"
    "''http://'' = ''http'' @ ''://''" "''https://'' = ''http'' @ ''s://''"
    by simp_all
  from p consider (www) "ciEq pre ''www.''"
    | (http) x where "ciEq pre (''http'' @ x)"
    unfolding isUrlPrefix_def isSchemePrefix_def by (metis lit)
  then show ?thesis
  proof cases
    case www
    then show ?thesis using s by blast
  next
    case http
    then obtain a b where "pre = a @ b" "ciEq a ''http''"
      unfolding ciEq_append_lit by blast
    then have "s = a @ (b @ label @ t) \<and> ciEq a ''http''"
      using s by simp
    then show ?thesis by blast
  qed
qed

lemma ciEq4chars:
  "ciEq w [c0, c1, c2, c3] \<longleftrightarrow>
     (\<exists>x0 x1 x2 x3. w = [x0, x1, x2, x3] \<and> canonicalize x0 = canonicalize c0
        \<and> canonicalize x1 = canonicalize c1 \<and> canonicalize x2 = canonicalize c2
        \<and> canonicalize x3 = canonicalize c3)"
  by (simp add: ciEq_Cons) blast

lemma urlGrammar_no_leading:
  assumes "urlGrammar s"
  shows "\<not> urlGrammar (c # s)"
proof
  assume "urlGrammar (c # s)"
  then obtain w' r' where w': "c # s = w' @ r'" "ciEq w' ''www.'' \<or> ciEq w' ''http''"
    using urlGrammar_head by blast
  from assms obtain w r where w: "s = w @ r" "ciEq w ''www.'' \<or> ciEq w ''http''"
    using urlGrammar_head by blast
  from w'(2) obtain x0 x1 x2 x3 where x: "w' = [x0, x1, x2, x3]"
    and xc: "(canonicalize x1 = canonicalize CHR ''w'' \<and> canonicalize x3 = canonicalize CHR ''.'')
          \<or> (canonicalize x1 = canonicalize CHR ''t'')"
    unfolding ciEq4chars by auto
  from w(2) obtain y0 y1 y2 y3 where y: "w = [y0, y1, y2, y3]"
    and yc: "(canonicalize y0 = canonicalize CHR ''w'' \<and> canonicalize y2 = canonicalize CHR ''w'')
          \<or> (canonicalize y0 = canonicalize CHR ''h'')"
    unfolding ciEq4chars by auto
  have "y0 = x1" "y2 = x3"
    using w'(1) w(1) x y by auto
  then show False
    using xc yc canon_neq by metis
qed

lemma urlGrammar_no_trailing_space:
  assumes "urlGrammar (s @ [c])"
  shows "\<not> isWhiteSpace c"
proof -
  from assms obtain pre label t where s: "s @ [c] = pre @ label @ t" and t: "isDotTail t"
    unfolding urlGrammar_def by blast
  from t obtain t' where t': "t = CHR ''.'' # t'" "2 \<le> length t'" "\<forall>x \<in> set t'. \<not> isWhiteSpace x"
    unfolding isDotTail_def by blast
  then have ne: "t' \<noteq> []" by auto
  have "last (s @ [c]) = last t'"
    unfolding s t'(1) using ne by simp
  then have "c = last t'" by simp
  then have "c \<in> set t'" using ne by simp
  then show ?thesis using t'(3) by blast
qed

text \<open>
  C8, as the source has it. \<^verbatim>\<open>isUrl\<close> is true of every text of the grammar, and of
  no other text; the grammar requires that a scheme not followed by \<open>www.\<close> is not
  followed by \<open>www\<close> at all. When \<^verbatim>\<open>isUrl\<close> is true of \<open>s\<close> it is false of \<open>s\<close> with any
  character put before it, and it is false of any text that ends with a white space
  character, so of \<open>s\<close> with such a character put after it: the whole text must match.
\<close>

theorem isUrl_anchored:
  "(urlGrammar s \<longrightarrow> isUrl s) \<and> (isUrl s \<longrightarrow> urlGrammar s)
   \<and> (isUrl s \<longrightarrow> \<not> isUrl (c # s))
   \<and> (isWhiteSpace c \<longrightarrow> \<not> isUrl (s @ [c]))"
  using urlGrammar_no_leading [of s c] urlGrammar_no_trailing_space [of s c]
  unfolding isUrl_iff_urlGrammar by blast

lemma isLabel_example: "isLabel ''example''"
  unfolding isLabel_def by (simp add: isAlnum_def isLower_def)

lemma isDotTail_com: "isDotTail ''.com''"
  unfolding isDotTail_def by (simp add: isWhiteSpace_def)

lemma not_startsWithWww_example: "\<not> startsWithWww ''example.com''"
proof
  assume "startsWithWww ''example.com''"
  then obtain u v where uv: "''example.com'' = u @ v" "ciEq u ''www''"
    unfolding startsWithWww_def by blast
  then obtain x0 x1 x2 where "u = [x0, x1, x2]" "canonicalize x0 = canonicalize CHR ''w''"
    by (auto simp: ciEq_Cons)
  then have "canonicalize CHR ''e'' = canonicalize CHR ''w''"
    using uv(1) by simp
  then show False
    by (simp add: canonicalize_def isLower_def char_of_eq_iff)
qed

theorem isUrl_anchored_witness:
  "urlGrammar ''https://example.com'' \<and> isUrl ''https://example.com''
   \<and> \<not> isUrl (CHR ''x'' # ''https://example.com'')
   \<and> isWhiteSpace CHR '' '' \<and> \<not> isUrl (''https://example.com'' @ [CHR '' ''])"
proof -
  have "''https://example.com'' = ''https://'' @ ''example'' @ ''.com''
      \<and> isUrlPrefix ''https://'' (''example'' @ ''.com'') \<and> isLabel ''example'' \<and> isDotTail ''.com''"
    using not_startsWithWww_example isLabel_example isDotTail_com
    by (simp add: isUrlPrefix_def isSchemePrefix_def ciEq_def)
  then have g: "urlGrammar ''https://example.com''"
    unfolding urlGrammar_def by blast
  have w: "isWhiteSpace CHR '' ''"
    by (simp add: isWhiteSpace_def)
  show ?thesis
    using g w isUrl_anchored [of "''https://example.com''" "CHR ''x''"]
      isUrl_anchored [of "''https://example.com''" "CHR '' ''"]
    by blast
qed

lemma isLabel_www2: "isLabel ''www2''"
  unfolding isLabel_def by (simp add: isAlnum_def isLower_def isDigit_def)

lemma isDotTail_example_com: "isDotTail ''.example.com''"
  unfolding isDotTail_def by (simp add: isWhiteSpace_def)

text \<open>
  C8 as the specification words it fails: \<open>https://www2.example.com\<close> is a scheme, the
  label \<open>www2\<close> and the tail \<open>.example.com\<close>, yet \<^verbatim>\<open>isUrl\<close> is false of it, because
  the negative lookahead rejects the \<open>www\<close> that follows the scheme.
\<close>

theorem isUrl_anchored_counterexample:
  "glossUrlGrammar ''https://www2.example.com'' \<and> \<not> isUrl ''https://www2.example.com''"
proof -
  have "''https://www2.example.com'' = ''https://'' @ ''www2'' @ ''.example.com''
      \<and> isGlossPrefix ''https://'' \<and> isLabel ''www2'' \<and> isDotTail ''.example.com''"
    using isLabel_www2 isDotTail_example_com by (simp add: isGlossPrefix_def ciEq_def)
  then have "glossUrlGrammar ''https://www2.example.com''"
    unfolding glossUrlGrammar_def by blast
  moreover have "\<not> isUrl ''https://www2.example.com''"
    by code_simp
  ultimately show ?thesis by simp
qed

end
